theory Spec2Isabelle
  imports Complex_Main "HOL-Library.Word" "HOL-Library.Log_Nat"
begin

section \<open>Numbers\<close>

text \<open>
  The converter computes its rectangles in JavaScript numbers, that is in IEEE 754
  binary64 with round-to-nearest, ties-to-even. A finite number is modelled by the
  rational it denotes, and every arithmetic operation rounds its exact result.

  \<open>rhe\<close> rounds a rational to the nearest integer, ties to even. \<open>expo x\<close> is the
  binary exponent \<open>\<lfloor>log\<^sub>2 x\<rfloor>\<close> of a positive rational. \<open>quantum x\<close> is the spacing of
  binary64 numbers around \<open>x\<close> (53 significant bits; below \<open>2 powi (- 1022)\<close> the
  spacing stays \<open>2 powi (- 1074)\<close>), and \<open>rnd x\<close> is the multiple of that spacing
  nearest to \<open>x\<close>.
\<close>

definition rhe :: "rat \<Rightarrow> int" where
  "rhe r = (let f = \<lfloor>r\<rfloor>; d = r - of_int f
            in if d < 1/2 then f else if 1/2 < d then f + 1
               else if even f then f else f + 1)"

definition expo :: "rat \<Rightarrow> int" where
  "expo x = (if 1 \<le> x then bitlen \<lfloor>x\<rfloor> - 1 else - bitlen (\<lceil>1 / x\<rceil> - 1))"

definition quantum :: "rat \<Rightarrow> rat" where
  "quantum x = 2 powi (max (expo \<bar>x\<bar>) (- 1022) - 52)"

definition rnd :: "rat \<Rightarrow> rat" where
  "rnd x = (if x = 0 then 0 else sgn x * of_int (rhe (\<bar>x\<bar> / quantum x)) * quantum x)"

text \<open>
  A number is finite, an infinity or NaN. The two zeros of binary64 are both
  \<open>Fin 0\<close>: they compare equal, and they differ only as divisors. The one divisor
  of this program that can be zero is \<^verbatim>\<open>sourceHeight\<close>, an unsigned integer, hence
  \<open>+0\<close>; division by \<open>Fin 0\<close> is division by \<open>+0\<close>.
\<close>

datatype number = Fin rat | PosInf | NegInf | NaN

text \<open>Rounding of an exact result, overflowing to an infinity.\<close>

definition fl :: "rat \<Rightarrow> number" where
  "fl x = (let r = rnd x
           in if 2 ^ 1024 \<le> r then PosInf
              else if r \<le> - (2 ^ 1024) then NegInf
              else Fin r)"

text \<open>An integer-valued number (every integer this program meets is below \<open>2 ^ 53\<close>,
  hence a binary64 number).\<close>

definition num :: "int \<Rightarrow> number" where
  "num i = Fin (of_int i)"

fun jneg :: "number \<Rightarrow> number" where
  "jneg (Fin a) = Fin (- a)"
| "jneg PosInf = NegInf"
| "jneg NegInf = PosInf"
| "jneg NaN = NaN"

fun jadd :: "number \<Rightarrow> number \<Rightarrow> number" where
  "jadd NaN _ = NaN"
| "jadd _ NaN = NaN"
| "jadd PosInf NegInf = NaN"
| "jadd NegInf PosInf = NaN"
| "jadd PosInf _ = PosInf"
| "jadd _ PosInf = PosInf"
| "jadd NegInf _ = NegInf"
| "jadd _ NegInf = NegInf"
| "jadd (Fin a) (Fin b) = fl (a + b)"

definition jsub :: "number \<Rightarrow> number \<Rightarrow> number" where
  "jsub a b = jadd a (jneg b)"

fun jmul :: "number \<Rightarrow> number \<Rightarrow> number" where
  "jmul NaN _ = NaN"
| "jmul _ NaN = NaN"
| "jmul (Fin a) (Fin b) = fl (a * b)"
| "jmul (Fin a) PosInf = (if a = 0 then NaN else if 0 < a then PosInf else NegInf)"
| "jmul (Fin a) NegInf = (if a = 0 then NaN else if 0 < a then NegInf else PosInf)"
| "jmul PosInf (Fin b) = (if b = 0 then NaN else if 0 < b then PosInf else NegInf)"
| "jmul NegInf (Fin b) = (if b = 0 then NaN else if 0 < b then NegInf else PosInf)"
| "jmul PosInf PosInf = PosInf"
| "jmul PosInf NegInf = NegInf"
| "jmul NegInf PosInf = NegInf"
| "jmul NegInf NegInf = PosInf"

fun jdiv :: "number \<Rightarrow> number \<Rightarrow> number" where
  "jdiv NaN _ = NaN"
| "jdiv _ NaN = NaN"
| "jdiv (Fin a) (Fin b) =
     (if b = 0 then (if a = 0 then NaN else if 0 < a then PosInf else NegInf)
      else fl (a / b))"
| "jdiv (Fin a) PosInf = Fin 0"
| "jdiv (Fin a) NegInf = Fin 0"
| "jdiv PosInf (Fin b) = (if b < 0 then NegInf else PosInf)"
| "jdiv NegInf (Fin b) = (if b < 0 then PosInf else NegInf)"
| "jdiv PosInf PosInf = NaN"
| "jdiv PosInf NegInf = NaN"
| "jdiv NegInf PosInf = NaN"
| "jdiv NegInf NegInf = NaN"

text \<open>The comparison \<^verbatim>\<open>a > b\<close>; false whenever an operand is NaN.\<close>

fun jgt :: "number \<Rightarrow> number \<Rightarrow> bool" where
  "jgt (Fin a) (Fin b) = (b < a)"
| "jgt (Fin a) NegInf = True"
| "jgt PosInf (Fin b) = True"
| "jgt PosInf NegInf = True"
| "jgt _ _ = False"

section \<open>Constants of the image converter\<close>

text \<open>
  The module \<^verbatim>\<open>imageConverter\<close> exists in two variants that differ only in
  \<^verbatim>\<open>convertToStorySize\<close>: the centre-crop variant and the blurred-background
  variant. Everything else (validation, naming, the orchestrating
  \<^verbatim>\<open>convertImage\<close>) is the same text in both and is modelled once. The constants
  are integer literals, except the quality \<^verbatim>\<open>0.9\<close>.
\<close>

definition OUTPUT_WIDTH :: int where "OUTPUT_WIDTH = 1080"
definition OUTPUT_HEIGHT :: int where "OUTPUT_HEIGHT = 1920"
definition JPEG_QUALITY :: number where "JPEG_QUALITY = fl (9 / 10)"
definition BLUR_AMOUNT :: int where "BLUR_AMOUNT = 30"
definition MAX_FILE_SIZE :: nat where "MAX_FILE_SIZE = 10 * 1024 * 1024"
definition MAX_PIXEL_DIMENSION :: int where "MAX_PIXEL_DIMENSION = 4096"
definition ALLOWED_MIME_TYPES :: "string list" where
  "ALLOWED_MIME_TYPES = [''image/jpeg'', ''image/png'']"

section \<open>Errors and results\<close>

datatype ConversionError =
    NO_FILE
  | FILE_TOO_LARGE nat nat  \<comment> \<open>maxSize, actualSize\<close>
  | INVALID_MIME_TYPE "string list" string  \<comment> \<open>allowed, actual\<close>
  | PIXEL_EXCEEDED int int int  \<comment> \<open>maxDimension, width, height\<close>
  | DECODE_FAILED string  \<comment> \<open>message\<close>
  | CONVERSION_FAILED string  \<comment> \<open>message\<close>

datatype 'blob ConversionResult =
    Success 'blob string  \<comment> \<open>blob, filename\<close>
  | Failure ConversionError

text \<open>
  What a \<^verbatim>\<open>catch (e)\<close> can receive: an \<^verbatim>\<open>Error\<close> with its message, or any other
  thrown value. The two \<^verbatim>\<open>catch\<close> blocks of \<^verbatim>\<open>convertImage\<close> read it the same way.
\<close>

datatype Thrown = Error string | NotAnError

fun message_of :: "Thrown \<Rightarrow> string" where
  "message_of (Error m) = m"
| "message_of NotAnError = ''Unknown error''"

section \<open>File validation\<close>

text \<open>A \<^verbatim>\<open>File\<close> as far as the converter reads it: its byte size and its declared type.\<close>

record File =
  size_file :: nat
  type_file :: string

definition validateFile :: "File \<Rightarrow> ConversionError option" where
  "validateFile file =
     (if size_file file > MAX_FILE_SIZE
      then Some (FILE_TOO_LARGE MAX_FILE_SIZE (size_file file))
      else if type_file file \<notin> set ALLOWED_MIME_TYPES
      then Some (INVALID_MIME_TYPE ALLOWED_MIME_TYPES (type_file file))
      else None)"

section \<open>Dimension guard\<close>

text \<open>
  \<^verbatim>\<open>validateDimensions\<close> takes two numbers; dimensions are integers, and the
  parameter type admits zero and negative ones.
\<close>

definition validateDimensions :: "int \<Rightarrow> int \<Rightarrow> ConversionError option" where
  "validateDimensions width height =
     (if width > MAX_PIXEL_DIMENSION \<or> height > MAX_PIXEL_DIMENSION
      then Some (PIXEL_EXCEEDED MAX_PIXEL_DIMENSION width height)
      else None)"

section \<open>File names\<close>

text \<open>The local-time fields of a \<^verbatim>\<open>Date\<close>, named after their getters.\<close>

record Date =
  getFullYear :: int
  getMonth :: int  \<comment> \<open>0 = January\<close>
  getDate :: int
  getHours :: int
  getMinutes :: int
  getSeconds :: int

definition digit_char :: "nat \<Rightarrow> char" where
  "digit_char d = ''0123456789'' ! d"

text \<open>Decimal \<^verbatim>\<open>toString\<close> of an integer-valued number.\<close>

fun nat_toString :: "nat \<Rightarrow> string" where
  "nat_toString n =
     (if n < 10 then [digit_char n]
      else nat_toString (n div 10) @ [digit_char (n mod 10)])"

definition toString :: "int \<Rightarrow> string" where
  "toString n = (if n < 0 then CHR ''-'' # nat_toString (nat (- n)) else nat_toString (nat n))"

text \<open>\<^verbatim>\<open>padStart\<close> with a one-character filler: nothing is added to a string
  that is already long enough.\<close>

definition padStart :: "nat \<Rightarrow> char \<Rightarrow> string \<Rightarrow> string" where
  "padStart targetLength c s = replicate (targetLength - length s) c @ s"

definition pad :: "int \<Rightarrow> string" where
  "pad n = padStart 2 (CHR ''0'') (toString n)"

definition generateFilename :: "Date \<Rightarrow> string" where
  "generateFilename now =
     (let dateStr = toString (getFullYear now) @ pad (getMonth now + 1) @ pad (getDate now);
          timeStr = pad (getHours now) @ pad (getMinutes now) @ pad (getSeconds now)
      in ''story_'' @ dateStr @ ''_'' @ timeStr @ ''.jpg'')"

section \<open>The compositor\<close>

text \<open>
  The \<^verbatim>\<open>width\<close> and \<^verbatim>\<open>height\<close> of an \<^verbatim>\<open>ImageBitmap\<close> are unsigned 32-bit integers.
\<close>

record ImageBitmap =
  width :: "32 word"
  height :: "32 word"

text \<open>A rectangle: x, y, width, height.\<close>

datatype Rect = Rect number number number number

text \<open>
  The 2D context records what is drawn: each \<^verbatim>\<open>drawImage\<close> call with the filter in
  force, the image, the source rectangle and the destination rectangle. A fresh
  context has the filter \<^verbatim>\<open>none\<close>.
\<close>

datatype DrawCall = DrawImage string ImageBitmap Rect Rect

record Context2D =
  filter_ctx :: string
  calls :: "DrawCall list"

definition newContext :: Context2D where
  "newContext = \<lparr>filter_ctx = ''none'', calls = []\<rparr>"

definition drawImage :: "Context2D \<Rightarrow> ImageBitmap \<Rightarrow> Rect \<Rightarrow> Rect \<Rightarrow> Context2D" where
  "drawImage ctx img src dst =
     ctx\<lparr>calls := calls ctx @ [DrawImage (filter_ctx ctx) img src dst]\<rparr>"

record Canvas =
  width_canvas :: int
  height_canvas :: int
  context2d :: Context2D

text \<open>
  Centre-crop variant: the source rectangle that \<^verbatim>\<open>convertToStorySize\<close> computes
  from \<^verbatim>\<open>sourceWidth\<close> and \<^verbatim>\<open>sourceHeight\<close>.
\<close>

definition srcRect :: "number \<Rightarrow> number \<Rightarrow> Rect" where
  "srcRect sourceWidth sourceHeight =
     (let outputAspect = jdiv (num OUTPUT_WIDTH) (num OUTPUT_HEIGHT);
          inputAspect = jdiv sourceWidth sourceHeight
      in if jgt inputAspect outputAspect
         then (let srcHeight = sourceHeight;
                   srcWidth = jmul sourceHeight outputAspect;
                   srcX = jdiv (jsub sourceWidth srcWidth) (num 2);
                   srcY = num 0
               in Rect srcX srcY srcWidth srcHeight)
         else (let srcWidth = sourceWidth;
                   srcHeight = jdiv sourceWidth outputAspect;
                   srcX = num 0;
                   srcY = jdiv (jsub sourceHeight srcHeight) (num 2)
               in Rect srcX srcY srcWidth srcHeight))"

text \<open>
  \<^verbatim>\<open>convertToStorySize\<close> of the centre-crop variant. Its first argument says
  whether \<^verbatim>\<open>canvas.getContext("2d")\<close> returned a context; without one it throws.
\<close>

definition convertToStorySize_crop :: "bool \<Rightarrow> ImageBitmap \<Rightarrow> Thrown + Canvas" where
  "convertToStorySize_crop getContext bitmap =
     (if \<not> getContext then Inl (Error ''Canvas context not available'')
      else
        (let sourceWidth = num (uint (width bitmap));
             sourceHeight = num (uint (height bitmap));
             ctx = drawImage newContext bitmap
                     (srcRect sourceWidth sourceHeight)
                     (Rect (num 0) (num 0) (num OUTPUT_WIDTH) (num OUTPUT_HEIGHT))
         in Inr \<lparr>width_canvas = OUTPUT_WIDTH, height_canvas = OUTPUT_HEIGHT, context2d = ctx\<rparr>))"

text \<open>Blurred-background variant: the source rectangle of the background layer.\<close>

definition bgSrcRect :: "number \<Rightarrow> number \<Rightarrow> Rect" where
  "bgSrcRect sourceWidth sourceHeight =
     (let outputAspect = jdiv (num OUTPUT_WIDTH) (num OUTPUT_HEIGHT);
          inputAspect = jdiv sourceWidth sourceHeight
      in if jgt inputAspect outputAspect
         then (let bgSrcHeight = sourceHeight;
                   bgSrcWidth = jmul sourceHeight outputAspect;
                   bgSrcX = jdiv (jsub sourceWidth bgSrcWidth) (num 2);
                   bgSrcY = num 0
               in Rect bgSrcX bgSrcY bgSrcWidth bgSrcHeight)
         else (let bgSrcWidth = sourceWidth;
                   bgSrcHeight = jdiv sourceWidth outputAspect;
                   bgSrcX = num 0;
                   bgSrcY = jdiv (jsub sourceHeight bgSrcHeight) (num 2)
               in Rect bgSrcX bgSrcY bgSrcWidth bgSrcHeight))"

text \<open>Blurred-background variant: the destination rectangle of the foreground layer.\<close>

definition fgDestRect :: "number \<Rightarrow> number \<Rightarrow> Rect" where
  "fgDestRect sourceWidth sourceHeight =
     (let outputAspect = jdiv (num OUTPUT_WIDTH) (num OUTPUT_HEIGHT);
          inputAspect = jdiv sourceWidth sourceHeight;
          (fgDestWidth, fgDestHeight) =
            (if jgt inputAspect outputAspect
             then (num OUTPUT_WIDTH, jdiv (num OUTPUT_WIDTH) inputAspect)
             else (jmul (num OUTPUT_HEIGHT) inputAspect, num OUTPUT_HEIGHT));
          fgDestX = jdiv (jsub (num OUTPUT_WIDTH) fgDestWidth) (num 2);
          fgDestY = jdiv (jsub (num OUTPUT_HEIGHT) fgDestHeight) (num 2)
      in Rect fgDestX fgDestY fgDestWidth fgDestHeight)"

text \<open>
  \<^verbatim>\<open>convertToStorySize\<close> of the blurred-background variant: the background is
  drawn under the blur filter, overdrawn by \<^verbatim>\<open>BLUR_AMOUNT\<close> on every side, then the
  filter is reset and the whole image is drawn into the foreground rectangle.
\<close>

definition convertToStorySize_blur :: "bool \<Rightarrow> ImageBitmap \<Rightarrow> Thrown + Canvas" where
  "convertToStorySize_blur getContext bitmap =
     (if \<not> getContext then Inl (Error ''Canvas context not available'')
      else
        (let sourceWidth = num (uint (width bitmap));
             sourceHeight = num (uint (height bitmap));
             ctx1 = newContext\<lparr>filter_ctx := ''blur('' @ toString BLUR_AMOUNT @ ''px)''\<rparr>;
             ctx2 = drawImage ctx1 bitmap
                      (bgSrcRect sourceWidth sourceHeight)
                      (Rect (jneg (num BLUR_AMOUNT)) (jneg (num BLUR_AMOUNT))
                            (jadd (num OUTPUT_WIDTH) (jmul (num BLUR_AMOUNT) (num 2)))
                            (jadd (num OUTPUT_HEIGHT) (jmul (num BLUR_AMOUNT) (num 2))));
             ctx3 = ctx2\<lparr>filter_ctx := ''none''\<rparr>;
             ctx4 = drawImage ctx3 bitmap
                      (Rect (num 0) (num 0) sourceWidth sourceHeight)
                      (fgDestRect sourceWidth sourceHeight)
         in Inr \<lparr>width_canvas = OUTPUT_WIDTH, height_canvas = OUTPUT_HEIGHT, context2d = ctx4\<rparr>))"

datatype Variant = CropFill | BlurPadFit

fun convertToStorySize :: "Variant \<Rightarrow> bool \<Rightarrow> ImageBitmap \<Rightarrow> Thrown + Canvas" where
  "convertToStorySize CropFill = convertToStorySize_crop"
| "convertToStorySize BlurPadFit = convertToStorySize_blur"

section \<open>The conversion pipeline\<close>

text \<open>
  What the platform does during one call: the outcome of \<^verbatim>\<open>createImageBitmap\<close>
  (a rejection, or the decoded bitmap), whether \<^verbatim>\<open>getContext("2d")\<close> yields a
  context, what \<^verbatim>\<open>canvas.toBlob\<close> hands to its callback (a blob or \<^verbatim>\<open>null\<close>), and
  the local time read by \<^verbatim>\<open>new Date()\<close>.
\<close>

record 'blob Platform =
  createImageBitmap :: "File \<Rightarrow> Thrown + ImageBitmap"
  getContext :: bool
  toBlob :: "Canvas \<Rightarrow> string \<Rightarrow> number \<Rightarrow> 'blob option"
  newDate :: Date

definition loadImage :: "'blob Platform \<Rightarrow> File \<Rightarrow> Thrown + ImageBitmap" where
  "loadImage pf file = createImageBitmap pf file"

definition canvasToJpegBlob :: "'blob Platform \<Rightarrow> Canvas \<Rightarrow> Thrown + 'blob" where
  "canvasToJpegBlob pf canvas =
     (case toBlob pf canvas ''image/jpeg'' JPEG_QUALITY of
        Some blob \<Rightarrow> Inr blob
      | None \<Rightarrow> Inl (Error ''Failed to create blob''))"

text \<open>
  \<^verbatim>\<open>convertImage\<close> returns its result together with the calls it made on the way, in
  order; \<open>BitmapClose\<close> is \<^verbatim>\<open>bitmap.close()\<close>.
\<close>

datatype Event = LoadImage | BitmapClose | ConvertToStorySize | CanvasToJpegBlob | GenerateFilename

definition convertImage ::
    "Variant \<Rightarrow> 'blob Platform \<Rightarrow> File option \<Rightarrow> 'blob ConversionResult \<times> Event list" where
  "convertImage v pf file =
     (case file of
        None \<Rightarrow> (Failure NO_FILE, [])
      | Some f \<Rightarrow>
          (case validateFile f of
             Some fileError \<Rightarrow> (Failure fileError, [])
           | None \<Rightarrow>
               (case loadImage pf f of
                  Inl e \<Rightarrow> (Failure (DECODE_FAILED (message_of e)), [LoadImage])
                | Inr bitmap \<Rightarrow>
                    (case validateDimensions (uint (width bitmap)) (uint (height bitmap)) of
                       Some dimensionError \<Rightarrow>
                         (Failure dimensionError, [LoadImage, BitmapClose])
                     | None \<Rightarrow>
                         (case convertToStorySize v (getContext pf) bitmap of
                            Inl e \<Rightarrow>
                              (Failure (CONVERSION_FAILED (message_of e)),
                               [LoadImage, ConvertToStorySize])
                          | Inr canvas \<Rightarrow>
                              (case canvasToJpegBlob pf canvas of
                                 Inl e \<Rightarrow>
                                   (Failure (CONVERSION_FAILED (message_of e)),
                                    [LoadImage, ConvertToStorySize, BitmapClose,
                                     CanvasToJpegBlob])
                               | Inr blob \<Rightarrow>
                                   (Success blob (generateFilename (newDate pf)),
                                    [LoadImage, ConvertToStorySize, BitmapClose,
                                     CanvasToJpegBlob, GenerateFilename])))))))"

section \<open>The file name as the specification words it\<close>

text \<open>
  \<^verbatim>\<open>story_\<close>, the local date as eight digits \<^verbatim>\<open>YYYYMMDD\<close>, an underscore, the local
  time as six digits \<^verbatim>\<open>HHMMSS\<close>, and \<^verbatim>\<open>.jpg\<close>.
\<close>

definition two_digits :: "int \<Rightarrow> string" where
  "two_digits n = [digit_char (nat n div 10), digit_char (nat n mod 10)]"

definition four_digits :: "int \<Rightarrow> string" where
  "four_digits n = [digit_char (nat n div 1000), digit_char (nat n div 100 mod 10),
                    digit_char (nat n div 10 mod 10), digit_char (nat n mod 10)]"

definition filename_spec :: "Date \<Rightarrow> string" where
  "filename_spec now =
     ''story_'' @ four_digits (getFullYear now) @ two_digits (getMonth now + 1)
       @ two_digits (getDate now) @ ''_'' @ two_digits (getHours now)
       @ two_digits (getMinutes now) @ two_digits (getSeconds now) @ ''.jpg''"

section \<open>Properties of rounding\<close>

lemma expo_bounds_ge1:
  assumes "1 \<le> x"
  shows "2 powi expo x \<le> x \<and> x < 2 powi (expo x + 1)"
proof -
  define n where "n = \<lfloor>x\<rfloor>"
  have n1: "1 \<le> n" using assms by (simp add: n_def le_floor_iff)
  then have npos: "0 < n" by simp
  have b1: "1 \<le> bitlen n" using npos by (simp add: bitlen_alt_def)
  from bitlen_bounds[OF npos]
  have lo: "2 ^ nat (bitlen n - 1) \<le> n" and hi: "n < 2 ^ nat (bitlen n)" by auto
  have e: "expo x = bitlen n - 1" using assms by (simp add: expo_def n_def)
  have "(2::rat) powi expo x = 2 ^ nat (bitlen n - 1)"
    using b1 by (simp add: e power_int_def)
  also have "\<dots> = of_int (2 ^ nat (bitlen n - 1))" by simp
  also have "\<dots> \<le> of_int n" using lo by (simp only: of_int_le_iff)
  also have "\<dots> \<le> x" by (simp add: n_def)
  finally have A: "2 powi expo x \<le> x" .
  have "n + 1 \<le> 2 ^ nat (bitlen n)" using hi by simp
  then have "(of_int (n + 1) :: rat) \<le> of_int (2 ^ nat (bitlen n))"
    by (simp only: of_int_le_iff)
  moreover have "x < of_int (n + 1)" unfolding n_def by linarith
  ultimately have "x < of_int (2 ^ nat (bitlen n))" by linarith
  also have "\<dots> = 2 powi (expo x + 1)"
    using b1 by (simp add: e power_int_def)
  finally show ?thesis using A by simp
qed

lemma expo_bounds_lt1:
  assumes "0 < x" "x < 1"
  shows "2 powi expo x \<le> x \<and> x < 2 powi (expo x + 1)"
proof -
  define y where "y = 1 / x"
  define c where "c = \<lceil>y\<rceil>"
  have y1: "1 < y" using assms by (simp add: y_def)
  have c2: "2 \<le> c" using y1 unfolding c_def by linarith
  have cpos: "0 < c - 1" using c2 by simp
  have ylo: "of_int (c - 1) < y" unfolding c_def by linarith
  have yhi: "y \<le> of_int c" unfolding c_def by linarith
  define b where "b = bitlen (c - 1)"
  have b1: "1 \<le> b" using cpos by (simp add: b_def bitlen_alt_def)
  from bitlen_bounds[OF cpos]
  have lo: "2 ^ nat (b - 1) \<le> c - 1" and hi: "c - 1 < 2 ^ nat b" by (auto simp: b_def)
  have e: "expo x = - b" using assms by (simp add: expo_def b_def c_def y_def)
  have "c \<le> 2 ^ nat b" using hi by simp
  then have "(of_int c :: rat) \<le> 2 ^ nat b" by simp
  then have yb: "y \<le> 2 ^ nat b" using yhi by linarith
  have "(2 ^ nat (b - 1) :: rat) = of_int (2 ^ nat (b - 1))" by simp
  also have "\<dots> \<le> of_int (c - 1)" by (rule iffD2[OF of_int_le_iff lo])
  finally have by': "2 ^ nat (b - 1) < y" using ylo by linarith
  have x_eq: "x = 1 / y" using assms by (simp add: y_def)
  have p1: "(2::rat) powi expo x = 1 / 2 ^ nat b"
    using b1 by (simp add: e power_int_def field_simps)
  have p2: "(2::rat) powi (expo x + 1) = 1 / 2 ^ nat (b - 1)"
  proof (cases "b = 1")
    case True then show ?thesis by (simp add: e)
  next
    case False
    then have "- b + 1 < 0" using b1 by simp
    moreover have "nat (- (- b + 1)) = nat (b - 1)" by simp
    ultimately show ?thesis by (simp add: e power_int_def field_simps)
  qed
  have "1 / 2 ^ nat b \<le> 1 / y" using yb y1 by (simp add: frac_le)
  moreover have "1 / y < 1 / 2 ^ nat (b - 1)" using by' by (simp add: frac_less2)
  ultimately show ?thesis using p1 p2 x_eq by simp
qed

lemma expo_bounds:
  assumes "0 < x"
  shows "2 powi expo x \<le> x \<and> x < 2 powi (expo x + 1)"
  using expo_bounds_ge1[of x] expo_bounds_lt1[of x] assms by (cases "1 \<le> x") auto


lemma pw_less_exp: "(2::rat) powi a < 2 powi b \<Longrightarrow> a < b"
  by (rule ccontr) (use power_int_increasing[of b a "2::rat"] in auto)

lemma pw_rescale:
  assumes "j \<le> k"
  shows "of_int m * (2::rat) powi k = of_int (m * 2 ^ nat (k - j)) * 2 powi j"
proof -
  have "(2::rat) powi k = 2 powi ((k - j) + j)" by simp
  also have "\<dots> = 2 powi (k - j) * 2 powi j" by (rule power_int_add) simp
  also have "(2::rat) powi (k - j) = 2 ^ nat (k - j)" using assms by (simp add: power_int_def)
  finally show ?thesis by simp
qed

lemma rhe_floor_le: "\<lfloor>r\<rfloor> \<le> rhe r"
  by (simp add: rhe_def Let_def)

lemma rhe_le_ceiling: "rhe r \<le> \<lceil>r\<rceil>"
proof (cases "r = of_int \<lfloor>r\<rfloor>")
  case True
  then have "r - of_int \<lfloor>r\<rfloor> = 0" by simp
  then have "rhe r = \<lfloor>r\<rfloor>" by (simp add: rhe_def Let_def)
  then show ?thesis by simp
next
  case False
  then have "\<lceil>r\<rceil> = \<lfloor>r\<rfloor> + 1" by (simp add: ceiling_altdef)
  moreover have "rhe r \<le> \<lfloor>r\<rfloor> + 1" by (simp add: rhe_def Let_def)
  ultimately show ?thesis by simp
qed

lemma rhe_lower:
  assumes "of_int n \<le> r"
  shows "n \<le> rhe r"
proof -
  have "n \<le> \<lfloor>r\<rfloor>" using assms by linarith
  then show ?thesis using rhe_floor_le[of r] by linarith
qed

lemma rhe_upper:
  assumes "r \<le> of_int n"
  shows "rhe r \<le> n"
proof -
  have "\<lceil>r\<rceil> \<le> n" using assms by linarith
  then show ?thesis using rhe_le_ceiling[of r] by linarith
qed

lemma rhe_err: "\<bar>of_int (rhe r) - r\<bar> \<le> 1 / 2"
proof -
  define f where "f = \<lfloor>r\<rfloor>"
  define d where "d = r - of_int f"
  have d0: "0 \<le> d" and d1: "d < 1" unfolding d_def f_def by linarith+
  have r: "r = of_int f + d" by (simp add: d_def)
  have "rhe r = (if d < 1/2 then f else if 1/2 < d then f + 1 else if even f then f else f + 1)"
    by (simp add: rhe_def Let_def f_def d_def)
  then show ?thesis using d0 d1 r by (auto split: if_splits)
qed

lemma quantum_pos: "0 < quantum x"
  by (simp add: quantum_def)

lemma quantum_uminus: "quantum (- x) = quantum x"
  by (simp add: quantum_def)

lemma rnd_uminus: "rnd (- x) = - rnd x"
  by (simp add: rnd_def quantum_uminus sgn_minus)

lemma rnd_pos_eq: "0 < x \<Longrightarrow> rnd x = of_int (rhe (x / quantum x)) * quantum x"
  by (simp add: rnd_def)

lemma scaled_lt:
  assumes "0 < x"
  defines "e \<equiv> max (expo x) (- 1022)"
  shows "x / quantum x < 2 ^ 53"
proof -
  have q: "quantum x = 2 powi (e - 52)" using assms by (simp add: quantum_def e_def)
  have "x < 2 powi (expo x + 1)" using expo_bounds[OF assms(1)] by simp
  also have "\<dots> \<le> 2 powi (e + 1)" by (rule power_int_increasing) (simp_all add: e_def)
  also have "\<dots> = 2 powi 53 * 2 powi (e - 52)"
    by (subst power_int_add[symmetric]) (simp_all add: ac_simps)
  finally have "x < 2 ^ 53 * quantum x" by (simp add: q)
  then show ?thesis using quantum_pos[of x] by (simp add: pos_divide_less_eq)
qed

lemma scaled_ge:
  assumes "0 < x" "- 1022 \<le> expo x"
  shows "2 ^ 52 \<le> x / quantum x"
proof -
  have q: "quantum x = 2 powi (expo x - 52)" using assms by (simp add: quantum_def max_def)
  have "(2::rat) powi 52 * 2 powi (expo x - 52) = 2 powi expo x"
    by (subst power_int_add[symmetric]) simp_all
  also have "\<dots> \<le> x" using expo_bounds[OF assms(1)] by simp
  finally have "2 ^ 52 * quantum x \<le> x" by (simp add: q)
  then show ?thesis using quantum_pos[of x] by (simp add: pos_le_divide_eq)
qed


lemma rnd_pos_upper:
  assumes x: "0 < x" and m: "\<bar>m\<bar> < 2 ^ 53" and k: "- 1074 \<le> k"
    and le: "x \<le> of_int m * 2 powi k"
  shows "rnd x \<le> of_int m * 2 powi k"
proof -
  define e where "e = max (expo x) (- 1022)"
  define q where "q = quantum x"
  define r where "r = of_int m * (2::rat) powi k"
  have q: "q = 2 powi (e - 52)" using x by (simp add: q_def quantum_def e_def)
  have qpos: "0 < q" by (simp add: q_def quantum_pos)
  have rn: "rnd x = of_int (rhe (x / q)) * q" using x by (simp add: rnd_pos_eq q_def)
  show ?thesis
  proof (cases "2 powi (e + 1) \<le> r")
    case True
    have "x / q \<le> of_int (2 ^ 53)" using scaled_lt[OF x] by (simp add: q_def)
    then have "rhe (x / q) \<le> 2 ^ 53" by (rule rhe_upper)
    then have "(of_int (rhe (x / q)) :: rat) \<le> of_int (2 ^ 53)" by (simp only: of_int_le_iff)
    then have "rnd x \<le> of_int (2 ^ 53) * q" using qpos by (simp add: rn)
    also have "\<dots> = 2 powi 53 * 2 powi (e - 52)" by (simp add: q)
    also have "\<dots> = 2 powi (e + 1)"
      by (subst power_int_add[symmetric]) (simp_all add: ac_simps)
    finally show ?thesis using True by (simp add: r_def)
  next
    case False
    then have rlt: "r < 2 powi (e + 1)" by simp
    have mpos: "0 < m"
    proof (rule ccontr)
      assume "\<not> 0 < m"
      then have "(of_int m :: rat) \<le> 0" by simp
      then have "r \<le> 0" unfolding r_def by (simp add: mult_le_0_iff)
      with le x show False by (simp add: r_def)
    qed
    have kge: "e - 52 \<le> k"
    proof (rule ccontr)
      assume "\<not> e - 52 \<le> k"
      then have klt: "k + 53 \<le> e" by simp
      with k have "- 1022 < e" by simp
      then have ee: "e = expo x" by (simp add: e_def max_def split: if_splits)
      have "m < 2 ^ 53" using m by simp
      then have "(of_int m :: rat) < of_int (2 ^ 53)" by (simp only: of_int_less_iff)
      then have "r < 2 powi 53 * 2 powi k" unfolding r_def by simp
      also have "\<dots> = 2 powi (k + 53)"
        by (subst power_int_add[symmetric]) (simp_all add: ac_simps)
      also have "\<dots> \<le> 2 powi e" using klt by (intro power_int_increasing) simp_all
      also have "\<dots> \<le> x" using expo_bounds[OF x] by (simp add: ee)
      finally show False using le by (simp add: r_def)
    qed
    have req: "r = of_int (m * 2 ^ nat (k - (e - 52))) * q"
      unfolding r_def q by (rule pw_rescale[OF kge])
    then have rq: "r / q = of_int (m * 2 ^ nat (k - (e - 52)))" using qpos by simp
    have "x / q \<le> r / q" using le qpos by (simp add: r_def divide_right_mono)
    then have "rhe (x / q) \<le> m * 2 ^ nat (k - (e - 52))" unfolding rq by (rule rhe_upper)
    then have "(of_int (rhe (x / q)) :: rat) \<le> of_int (m * 2 ^ nat (k - (e - 52)))"
      by (simp only: of_int_le_iff)
    then have "rnd x \<le> of_int (m * 2 ^ nat (k - (e - 52))) * q"
      unfolding rn using qpos by (simp only: mult_le_cancel_right) simp
    also have "\<dots> = r" by (rule req[symmetric])
    finally show ?thesis by (simp add: r_def)
  qed
qed


lemma rnd_pos_lower:
  assumes x: "0 < x" and m: "\<bar>m\<bar> < 2 ^ 53" and k: "- 1074 \<le> k"
    and le: "of_int m * 2 powi k \<le> x"
  shows "of_int m * 2 powi k \<le> rnd x"
proof -
  define e where "e = max (expo x) (- 1022)"
  define q where "q = quantum x"
  define r where "r = of_int m * (2::rat) powi k"
  have q: "q = 2 powi (e - 52)" using x by (simp add: q_def quantum_def e_def)
  have qpos: "0 < q" by (simp add: q_def quantum_pos)
  have rn: "rnd x = of_int (rhe (x / q)) * q" using x by (simp add: rnd_pos_eq q_def)
  show ?thesis
  proof (cases "e - 52 \<le> k")
    case True
    have req: "r = of_int (m * 2 ^ nat (k - (e - 52))) * q"
      unfolding r_def q by (rule pw_rescale[OF True])
    then have rq: "r / q = of_int (m * 2 ^ nat (k - (e - 52)))" using qpos by simp
    have "r / q \<le> x / q" using le qpos by (simp add: r_def divide_right_mono)
    then have "m * 2 ^ nat (k - (e - 52)) \<le> rhe (x / q)" unfolding rq by (rule rhe_lower)
    then have "(of_int (m * 2 ^ nat (k - (e - 52))) :: rat) \<le> of_int (rhe (x / q))"
      by (simp only: of_int_le_iff)
    then have "of_int (m * 2 ^ nat (k - (e - 52))) * q \<le> rnd x"
      unfolding rn using qpos by (simp only: mult_le_cancel_right) simp
    then have "r \<le> rnd x" by (simp only: req)
    then show ?thesis by (simp only: r_def)
  next
    case False
    then have klt: "k + 53 \<le> e" by simp
    with k have "- 1022 < e" by simp
    then have ee: "- 1022 \<le> expo x" "e = expo x" by (simp_all add: e_def max_def split: if_splits)
    have "m < 2 ^ 53" using m by simp
    then have "(of_int m :: rat) < of_int (2 ^ 53)" by (simp only: of_int_less_iff)
    then have "r < 2 powi 53 * 2 powi k" unfolding r_def by simp
    also have "\<dots> = 2 powi (k + 53)"
      by (subst power_int_add[symmetric]) (simp_all add: ac_simps)
    also have "\<dots> \<le> 2 powi e" using klt by (intro power_int_increasing) simp_all
    finally have r_lt: "r < 2 powi e" .
    have "of_int (2 ^ 52) \<le> x / q" using scaled_ge[OF x ee(1)] by (simp add: q_def)
    then have "2 ^ 52 \<le> rhe (x / q)" by (rule rhe_lower)
    then have "(of_int (2 ^ 52) :: rat) \<le> of_int (rhe (x / q))" by (simp only: of_int_le_iff)
    then have "of_int (2 ^ 52) * q \<le> rnd x"
      unfolding rn using qpos by (simp only: mult_le_cancel_right) simp
    moreover have "of_int (2 ^ 52) * q = 2 powi 52 * 2 powi (e - 52)" by (simp add: q)
    moreover have "(2::rat) powi 52 * 2 powi (e - 52) = 2 powi e"
      by (subst power_int_add[symmetric]) (simp_all add: ac_simps)
    ultimately have "2 powi e \<le> rnd x" by simp
    then show ?thesis using r_lt by (simp add: r_def)
  qed
qed

text \<open>The rounded value never crosses a representable number.\<close>

lemma rnd_upper:
  assumes m: "\<bar>m\<bar> < 2 ^ 53" and k: "- 1074 \<le> k" and le: "x \<le> of_int m * 2 powi k"
  shows "rnd x \<le> of_int m * 2 powi k"
proof -
  consider "0 < x" | "x = 0" | "x < 0" by linarith
  then show ?thesis
  proof cases
    case 1 then show ?thesis by (rule rnd_pos_upper[OF _ m k le])
  next
    case 2 then show ?thesis using le by (simp add: rnd_def)
  next
    case 3
    then have px: "0 < - x" by simp
    have m': "\<bar>- m\<bar> < 2 ^ 53" using m by simp
    have "of_int (- m) * 2 powi k \<le> - x" using le by simp
    from rnd_pos_lower[OF px m' k this] show ?thesis by (simp add: rnd_uminus)
  qed
qed

lemma rnd_lower:
  assumes m: "\<bar>m\<bar> < 2 ^ 53" and k: "- 1074 \<le> k" and le: "of_int m * 2 powi k \<le> x"
  shows "of_int m * 2 powi k \<le> rnd x"
proof -
  have m': "\<bar>- m\<bar> < 2 ^ 53" using m by simp
  have "- x \<le> of_int (- m) * 2 powi k" using le by simp
  from rnd_upper[OF m' k this] show ?thesis by (simp add: rnd_uminus)
qed

lemma rnd_exact:
  assumes m: "\<bar>m\<bar> < 2 ^ 53" and k: "- 1074 \<le> k"
  shows "rnd (of_int m * 2 powi k) = of_int m * 2 powi k"
  using rnd_upper[OF m k order_refl] rnd_lower[OF m k order_refl] by (rule antisym)

lemma rnd_exact_int:
  assumes "\<bar>m\<bar> < 2 ^ 53"
  shows "rnd (of_int m) = of_int m"
  using rnd_exact[OF assms, of 0] by simp

lemma rnd_le_int:
  assumes "\<bar>m\<bar> < 2 ^ 53" "x \<le> of_int m"
  shows "rnd x \<le> of_int m"
  using rnd_upper[OF assms(1), of 0 x] assms(2) by simp

lemma rnd_ge_int:
  assumes "\<bar>m\<bar> < 2 ^ 53" "of_int m \<le> x"
  shows "of_int m \<le> rnd x"
  using rnd_lower[OF assms(1), of 0 x] assms(2) by simp


lemma expo_ge:
  assumes "2 powi j \<le> x"
  shows "j \<le> expo x"
proof -
  have x: "0 < x" using assms zero_less_power_int[of "2::rat" j] by linarith
  have "(2::rat) powi j < 2 powi (expo x + 1)" using expo_bounds[OF x] assms by linarith
  then have "j < expo x + 1" by (rule pw_less_exp)
  then show ?thesis by simp
qed

lemma rnd_abs_err:
  assumes x: "0 < x"
  shows "\<bar>rnd x - x\<bar> \<le> quantum x / 2"
proof -
  define q where "q = quantum x"
  have qpos: "0 < q" by (simp add: q_def quantum_pos)
  have "rnd x - x = (of_int (rhe (x / q)) - x / q) * q"
    using x qpos by (simp add: rnd_pos_eq q_def algebra_simps)
  then have "\<bar>rnd x - x\<bar> = \<bar>of_int (rhe (x / q)) - x / q\<bar> * q"
    using qpos by (simp add: abs_mult)
  also have "\<dots> \<le> (1 / 2) * q"
    using rhe_err[of "x / q"] qpos by (intro mult_right_mono) simp_all
  finally show ?thesis by (simp add: q_def)
qed

lemma rnd_rel_err:
  assumes n: "2 powi (- 1022) \<le> x"
  shows "\<bar>rnd x - x\<bar> \<le> x / 2 ^ 53"
proof -
  have x: "0 < x" using n zero_less_power_int[of "2::rat" "- 1022"] by linarith
  have e: "- 1022 \<le> expo x" using n by (rule expo_ge)
  have "quantum x = 2 powi (expo x - 52)" using x e by (simp add: quantum_def max_def)
  also have "\<dots> = 2 powi expo x / 2 powi 52" by (rule power_int_diff) simp
  also have "\<dots> \<le> x / 2 powi 52"
    using expo_bounds[OF x] by (intro divide_right_mono) simp_all
  finally have "quantum x / 2 \<le> x / 2 ^ 52 / 2" by simp
  with rnd_abs_err[OF x] show ?thesis by simp
qed

lemma rnd_grid:
  assumes n: "2 powi j \<le> x" and j: "- 1022 \<le> j"
  shows "\<exists>n. rnd x = of_int n * 2 powi (j - 52)"
proof -
  have x: "0 < x" using n zero_less_power_int[of "2::rat" j] by linarith
  have e: "j \<le> expo x" using n by (rule expo_ge)
  then have mx: "max (expo x) (- 1022) = expo x" using j by linarith
  have q: "quantum x = 2 powi (expo x - 52)" unfolding quantum_def abs_of_pos[OF x] mx ..
  have "rnd x = of_int (rhe (x / quantum x)) * 2 powi (expo x - 52)"
    using x by (simp add: rnd_pos_eq q)
  also have "\<dots> = of_int (rhe (x / quantum x) * 2 ^ nat ((expo x - 52) - (j - 52))) * 2 powi (j - 52)"
    by (rule pw_rescale) (use e in simp)
  finally show ?thesis by blast
qed

section \<open>Validation failures\<close>

text \<open>
  Claim C5. A file of more than 10485760 bytes is rejected with \<open>FILE_TOO_LARGE\<close>,
  carrying the limit and the file's size, whatever its declared type: the size is
  checked before the type. Nothing is decoded.
\<close>

theorem file_too_large:
  assumes "10485760 < size_file f"
  shows "convertImage v pf (Some f) = (Failure (FILE_TOO_LARGE 10485760 (size_file f)), [])"
  using assms by (simp add: convertImage_def validateFile_def MAX_FILE_SIZE_def)

theorem file_too_large_witness:
  "convertImage CropFill
     \<lparr>createImageBitmap = (\<lambda>_. Inl NotAnError), getContext = True,
      toBlob = (\<lambda>_ _ _. (None :: unit option)),
      newDate = \<lparr>getFullYear = 2024, getMonth = 2, getDate = 5, getHours = 9,
                 getMinutes = 7, getSeconds = 2\<rparr>\<rparr>
     (Some \<lparr>size_file = 10485761, type_file = ''image/jpeg''\<rparr>)
   = (Failure (FILE_TOO_LARGE 10485760 10485761), [])"
  using file_too_large[of "\<lparr>size_file = 10485761, type_file = ''image/jpeg''\<rparr>" CropFill]
  by simp

text \<open>
  Claim C6. A file within the size limit whose declared type is neither
  \<^verbatim>\<open>image/jpeg\<close> nor \<^verbatim>\<open>image/png\<close>, compared character by character, is rejected with
  \<open>INVALID_MIME_TYPE\<close>, carrying the allowed list and the declared type.
\<close>

theorem invalid_mime_type:
  assumes "size_file f \<le> 10485760"
    and "type_file f \<noteq> ''image/jpeg''" and "type_file f \<noteq> ''image/png''"
  shows "convertImage v pf (Some f)
         = (Failure (INVALID_MIME_TYPE [''image/jpeg'', ''image/png''] (type_file f)), [])"
  using assms
  by (simp add: convertImage_def validateFile_def MAX_FILE_SIZE_def ALLOWED_MIME_TYPES_def)

theorem invalid_mime_type_witness:
  "convertImage BlurPadFit
     \<lparr>createImageBitmap = (\<lambda>_. Inl NotAnError), getContext = True,
      toBlob = (\<lambda>_ _ _. (None :: unit option)),
      newDate = \<lparr>getFullYear = 2024, getMonth = 2, getDate = 5, getHours = 9,
                 getMinutes = 7, getSeconds = 2\<rparr>\<rparr>
     (Some \<lparr>size_file = 10485760, type_file = ''image/PNG''\<rparr>)
   = (Failure (INVALID_MIME_TYPE [''image/jpeg'', ''image/png''] ''image/PNG''), [])"
  using invalid_mime_type[of "\<lparr>size_file = 10485760, type_file = ''image/PNG''\<rparr>" BlurPadFit]
  by simp

text \<open>
  Claim C7. When the decoded bitmap is wider or higher than 4096, the result is
  \<open>PIXEL_EXCEEDED\<close> with the limit and the bitmap's width and height; the bitmap is
  closed before returning, and \<^verbatim>\<open>convertToStorySize\<close> is not called: after loading,
  the only call is \<^verbatim>\<open>bitmap.close()\<close>.
\<close>

theorem pixel_exceeded:
  assumes "size_file f \<le> 10485760"
    and "type_file f = ''image/jpeg'' \<or> type_file f = ''image/png''"
    and "createImageBitmap pf f = Inr bitmap"
    and "4096 < uint (width bitmap) \<or> 4096 < uint (height bitmap)"
  shows "convertImage v pf (Some f)
         = (Failure (PIXEL_EXCEEDED 4096 (uint (width bitmap)) (uint (height bitmap))),
            [LoadImage, BitmapClose])"
  using assms
  by (auto simp add: convertImage_def validateFile_def MAX_FILE_SIZE_def ALLOWED_MIME_TYPES_def
      loadImage_def validateDimensions_def MAX_PIXEL_DIMENSION_def)


theorem pixel_exceeded_witness:
  "convertImage CropFill
     \<lparr>createImageBitmap = (\<lambda>_. Inr \<lparr>width = 5000, height = 100\<rparr>), getContext = True,
      toBlob = (\<lambda>_ _ _. Some ()),
      newDate = \<lparr>getFullYear = 2024, getMonth = 2, getDate = 5, getHours = 9,
                 getMinutes = 7, getSeconds = 2\<rparr>\<rparr>
     (Some \<lparr>size_file = 1000, type_file = ''image/png''\<rparr>)
   = (Failure (PIXEL_EXCEEDED 4096 5000 100), [LoadImage, BitmapClose])"
  using pixel_exceeded[of "\<lparr>size_file = 1000, type_file = ''image/png''\<rparr>"
      "\<lparr>createImageBitmap = (\<lambda>_. Inr \<lparr>width = 5000, height = 100\<rparr>), getContext = True,
        toBlob = (\<lambda>_ _ _. Some ()),
        newDate = \<lparr>getFullYear = 2024, getMonth = 2, getDate = 5, getHours = 9,
                   getMinutes = 7, getSeconds = 2\<rparr>\<rparr>"
      "\<lparr>width = 5000, height = 100\<rparr>" CropFill]
  by simp

section \<open>File names\<close>

declare nat_toString.simps [simp del]

lemma nat_toString_1: "n < 10 \<Longrightarrow> nat_toString n = [digit_char n]"
  by (subst nat_toString.simps) simp

lemma nat_toString_2:
  assumes "10 \<le> n" "n < 100"
  shows "nat_toString n = [digit_char (n div 10), digit_char (n mod 10)]"
proof -
  have "n div 10 < 10" using assms by simp
  then show ?thesis using assms by (subst nat_toString.simps) (simp add: nat_toString_1)
qed

lemma nat_toString_3:
  assumes "100 \<le> n" "n < 1000"
  shows "nat_toString n
         = [digit_char (n div 100), digit_char (n div 10 mod 10), digit_char (n mod 10)]"
proof -
  have "10 \<le> n div 10" "n div 10 < 100" using assms by simp_all
  moreover have "n div 10 div 10 = n div 100" by (simp add: div_mult2_eq[symmetric])
  ultimately show ?thesis using assms
    by (subst nat_toString.simps) (simp add: nat_toString_2)
qed

lemma nat_toString_4:
  assumes "1000 \<le> n" "n < 10000"
  shows "nat_toString n
         = [digit_char (n div 1000), digit_char (n div 100 mod 10),
            digit_char (n div 10 mod 10), digit_char (n mod 10)]"
proof -
  have "100 \<le> n div 10" "n div 10 < 1000" using assms by simp_all
  moreover have "n div 10 div 100 = n div 1000" "n div 10 div 10 = n div 100"
    by (simp_all add: div_mult2_eq[symmetric])
  ultimately show ?thesis using assms
    by (subst nat_toString.simps) (simp add: nat_toString_3)
qed

lemma pad_two_digits:
  assumes "0 \<le> n" "n \<le> 99"
  shows "pad n = two_digits n"
proof (cases "n < 10")
  case True
  then have "nat n < 10" using assms by simp
  then show ?thesis using assms
    by (simp add: pad_def padStart_def toString_def two_digits_def nat_toString_1 digit_char_def)
next
  case False
  then have "10 \<le> nat n" "nat n < 100" using assms by simp_all
  then show ?thesis using assms
    by (simp add: pad_def padStart_def toString_def two_digits_def nat_toString_2)
qed

lemma year_four_digits:
  assumes "1000 \<le> n" "n \<le> 9999"
  shows "toString n = four_digits n"
proof -
  have "1000 \<le> nat n" "nat n < 10000" using assms by simp_all
  then show ?thesis using assms
    by (simp add: toString_def four_digits_def nat_toString_4)
qed


text \<open>
  Claim C9. For a local time with a four-digit year, \<^verbatim>\<open>generateFilename\<close> returns
  \<^verbatim>\<open>story_\<close>, the four digits of the year, two digits each for month (counted from
  1) and day, an underscore, two digits each for hour, minute and second, and
  \<^verbatim>\<open>.jpg\<close>: 25 characters. For 2024-03-05 09:07:02 (\<^verbatim>\<open>getMonth\<close> is 2) it returns
  \<^verbatim>\<open>story_20240305_090702.jpg\<close>.
\<close>

theorem generateFilename_format:
  "(1000 \<le> getFullYear now \<and> getFullYear now \<le> 9999 \<and>
    0 \<le> getMonth now \<and> getMonth now \<le> 11 \<and>
    1 \<le> getDate now \<and> getDate now \<le> 31 \<and>
    0 \<le> getHours now \<and> getHours now \<le> 23 \<and>
    0 \<le> getMinutes now \<and> getMinutes now \<le> 59 \<and>
    0 \<le> getSeconds now \<and> getSeconds now \<le> 59
    \<longrightarrow> generateFilename now = filename_spec now \<and> length (generateFilename now) = 25)
   \<and> generateFilename \<lparr>getFullYear = 2024, getMonth = 2, getDate = 5, getHours = 9,
                         getMinutes = 7, getSeconds = 2\<rparr>
       = ''story_20240305_090702.jpg''"
proof (intro conjI impI)
  assume r: "1000 \<le> getFullYear now \<and> getFullYear now \<le> 9999 \<and>
    0 \<le> getMonth now \<and> getMonth now \<le> 11 \<and>
    1 \<le> getDate now \<and> getDate now \<le> 31 \<and>
    0 \<le> getHours now \<and> getHours now \<le> 23 \<and>
    0 \<le> getMinutes now \<and> getMinutes now \<le> 59 \<and>
    0 \<le> getSeconds now \<and> getSeconds now \<le> 59"
  then have y: "toString (getFullYear now) = four_digits (getFullYear now)"
    by (intro year_four_digits) simp_all
  from r have m: "pad (getMonth now + 1) = two_digits (getMonth now + 1)"
    by (intro pad_two_digits) simp_all
  from r have d: "pad (getDate now) = two_digits (getDate now)"
    by (intro pad_two_digits) simp_all
  from r have h: "pad (getHours now) = two_digits (getHours now)"
    by (intro pad_two_digits) simp_all
  from r have mi: "pad (getMinutes now) = two_digits (getMinutes now)"
    by (intro pad_two_digits) simp_all
  from r have se: "pad (getSeconds now) = two_digits (getSeconds now)"
    by (intro pad_two_digits) simp_all
  show eq: "generateFilename now = filename_spec now"
    by (simp add: generateFilename_def filename_spec_def Let_def y m d h mi se)
  show "length (generateFilename now) = 25"
    by (simp add: eq filename_spec_def four_digits_def two_digits_def)
next
  show "generateFilename \<lparr>getFullYear = 2024, getMonth = 2, getDate = 5, getHours = 9,
                         getMinutes = 7, getSeconds = 2\<rparr>
       = ''story_20240305_090702.jpg''"
    by (simp add: generateFilename_def Let_def pad_def padStart_def toString_def
        nat_toString_1 nat_toString_4 digit_char_def)
qed

theorem generateFilename_format_witness:
  "generateFilename \<lparr>getFullYear = 1999, getMonth = 11, getDate = 31, getHours = 23,
                      getMinutes = 59, getSeconds = 59\<rparr>
   = ''story_19991231_235959.jpg''"
  using generateFilename_format[of "\<lparr>getFullYear = 1999, getMonth = 11, getDate = 31,
      getHours = 23, getMinutes = 59, getSeconds = 59\<rparr>"]
  by (simp add: filename_spec_def four_digits_def two_digits_def digit_char_def)


section \<open>Release of the decoded bitmap\<close>

text \<open>
  Claim C3, evaluated where it fails. A valid file decodes to a 1080 by 1920
  bitmap, and \<^verbatim>\<open>getContext("2d")\<close> yields no context, so \<^verbatim>\<open>convertToStorySize\<close>
  throws. In both variants \<^verbatim>\<open>convertImage\<close> returns \<open>CONVERSION_FAILED\<close> after loading
  and calling the compositor, without ever calling \<^verbatim>\<open>bitmap.close()\<close>.
\<close>

theorem compositor_throw_leaves_bitmap_open:
  "convertImage CropFill
     \<lparr>createImageBitmap = (\<lambda>_. Inr \<lparr>width = 1080, height = 1920\<rparr>), getContext = False,
      toBlob = (\<lambda>_ _ _. Some ()),
      newDate = \<lparr>getFullYear = 2024, getMonth = 2, getDate = 5, getHours = 9,
                 getMinutes = 7, getSeconds = 2\<rparr>\<rparr>
     (Some \<lparr>size_file = 1000, type_file = ''image/jpeg''\<rparr>)
   = (Failure (CONVERSION_FAILED ''Canvas context not available''),
      [LoadImage, ConvertToStorySize])
   \<and> convertImage BlurPadFit
     \<lparr>createImageBitmap = (\<lambda>_. Inr \<lparr>width = 1080, height = 1920\<rparr>), getContext = False,
      toBlob = (\<lambda>_ _ _. Some ()),
      newDate = \<lparr>getFullYear = 2024, getMonth = 2, getDate = 5, getHours = 9,
                 getMinutes = 7, getSeconds = 2\<rparr>\<rparr>
     (Some \<lparr>size_file = 1000, type_file = ''image/jpeg''\<rparr>)
   = (Failure (CONVERSION_FAILED ''Canvas context not available''),
      [LoadImage, ConvertToStorySize])
   \<and> count_list [LoadImage, ConvertToStorySize] BitmapClose = 0"
  by (simp add: convertImage_def validateFile_def MAX_FILE_SIZE_def ALLOWED_MIME_TYPES_def
      loadImage_def validateDimensions_def MAX_PIXEL_DIMENSION_def convertToStorySize_crop_def
      convertToStorySize_blur_def)

text \<open>
  On every other path that has a decoded bitmap (rejection by the dimension guard,
  failure of the encoder, success) the bitmap is closed exactly once.
\<close>

lemma bitmap_closed_once_unless_compositor_throws:
  assumes "validateFile f = None" and "createImageBitmap pf f = Inr bitmap"
    and "getContext pf \<or> validateDimensions (uint (width bitmap)) (uint (height bitmap)) \<noteq> None"
  shows "count_list (snd (convertImage v pf (Some f))) BitmapClose = 1"
  using assms
  by (cases v)
     (auto simp add: convertImage_def loadImage_def convertToStorySize_crop_def
        convertToStorySize_blur_def Let_def split: sum.splits option.splits)
section \<open>The arithmetic of the two compositors\<close>

text \<open>
  Every number the compositors compute from a bitmap of positive 32-bit dimensions
  is finite; the lemmas below evaluate their rectangles and bound the rounding
  errors.
\<close>

lemma rnd_zero: "rnd 0 = 0"
  by (simp add: rnd_def)

lemma rnd_bound_52:
  assumes "\<bar>x\<bar> \<le> 2 ^ 52"
  shows "\<bar>rnd x\<bar> \<le> 2 ^ 52"
proof -
  have "x \<le> of_int (2 ^ 52)" "of_int (- (2 ^ 52)) \<le> x" using assms by simp_all
  then have "rnd x \<le> of_int (2 ^ 52)" "of_int (- (2 ^ 52)) \<le> rnd x"
    by (intro rnd_le_int rnd_ge_int; simp)+
  then show ?thesis by simp
qed

lemma fl_fin:
  assumes "\<bar>x\<bar> \<le> 2 ^ 52"
  shows "fl x = Fin (rnd x)"
proof -
  have "\<bar>rnd x\<bar> \<le> 2 ^ 52" using assms by (rule rnd_bound_52)
  moreover have "(2::rat) ^ 52 < 2 ^ 1024" by (rule power_strict_increasing) simp_all
  ultimately have "\<not> 2 ^ 1024 \<le> rnd x" "\<not> rnd x \<le> - (2 ^ 1024)" by linarith+
  then show ?thesis by (simp only: fl_def Let_def if_False)
qed

lemma fl_int:
  assumes "\<bar>m\<bar> < 2 ^ 52"
  shows "fl (of_int m) = Fin (of_int m)"
proof -
  have "\<bar>of_int m :: rat\<bar> \<le> 2 ^ 52"
  proof -
    have "\<bar>m\<bar> \<le> 2 ^ 52" using assms by simp
    then have "(of_int \<bar>m\<bar> :: rat) \<le> of_int (2 ^ 52)" by (simp only: of_int_le_iff)
    then show ?thesis by simp
  qed
  moreover have "rnd (of_int m) = of_int m" using assms by (intro rnd_exact_int) simp
  ultimately show ?thesis by (simp add: fl_fin)
qed

lemma outputAspect_eq: "jdiv (num OUTPUT_WIDTH) (num OUTPUT_HEIGHT) = Fin (9 / 16)"
proof -
  have "rnd (of_int 9 * 2 powi (- 4)) = of_int 9 * 2 powi (- 4)" by (rule rnd_exact) simp_all
  then have r: "rnd (9 / 16) = 9 / 16" by simp
  have "fl (9 / 16) = Fin (rnd (9 / 16))" by (rule fl_fin) simp
  then show ?thesis by (simp add: num_def OUTPUT_WIDTH_def OUTPUT_HEIGHT_def r)
qed


lemma ratio_bounds:
  fixes w h :: int
  assumes "0 < w" "w < 2 ^ 32" "0 < h" "h < 2 ^ 32"
  shows "0 < (of_int w / of_int h :: rat)" and "(of_int w / of_int h :: rat) \<le> 2 ^ 32"
    and "1 / 2 ^ 32 \<le> (of_int w / of_int h :: rat)"
proof -
  have w: "(1::rat) \<le> of_int w" "(of_int w :: rat) \<le> 2 ^ 32" using assms by simp_all
  have h: "(1::rat) \<le> of_int h" "(of_int h :: rat) \<le> 2 ^ 32" using assms by simp_all
  show "0 < (of_int w / of_int h :: rat)" using w h by simp
  have "(of_int w / of_int h :: rat) \<le> of_int w / 1" using w h by (intro divide_left_mono) simp_all
  then show "(of_int w / of_int h :: rat) \<le> 2 ^ 32" using w by simp
  have "(1 / 2 ^ 32 :: rat) \<le> 1 / of_int h" using h by (intro divide_left_mono) simp_all
  also have "\<dots> \<le> of_int w / of_int h" using w h by (intro divide_right_mono) simp_all
  finally show "1 / 2 ^ 32 \<le> (of_int w / of_int h :: rat)" .
qed

lemma inputAspect_eq:
  fixes w h :: int
  assumes "0 < w" "w < 2 ^ 32" "0 < h" "h < 2 ^ 32"
  shows "jdiv (num w) (num h) = Fin (rnd (of_int w / of_int h))"
proof -
  have "\<bar>of_int w / of_int h :: rat\<bar> \<le> 2 ^ 52"
    using ratio_bounds(1,2)[OF assms] by simp
  then have "fl (of_int w / of_int h) = Fin (rnd (of_int w / of_int h))" by (rule fl_fin)
  then show ?thesis using assms by (simp add: num_def)
qed

lemma inputAspect_gt_iff:
  fixes w h :: int
  assumes "0 < w" "w < 2 ^ 32" "0 < h" "h < 2 ^ 32"
  shows "9 / 16 < rnd (of_int w / of_int h) \<longleftrightarrow> 9 * h < 16 * w"
proof
  assume gt: "9 / 16 < rnd (of_int w / of_int h)"
  show "9 * h < 16 * w"
  proof (rule ccontr)
    assume "\<not> 9 * h < 16 * w"
    then have "16 * w \<le> 9 * h" by simp
    then have "(of_int (16 * w) :: rat) \<le> of_int (9 * h)" by (simp only: of_int_le_iff)
    then have "(of_int w / of_int h :: rat) \<le> 9 / 16" using assms by (simp add: field_simps)
    then have "(of_int w / of_int h :: rat) \<le> of_int 9 * 2 powi (- 4)" by simp
    then have "rnd (of_int w / of_int h) \<le> of_int 9 * 2 powi (- 4)"
      by (intro rnd_upper) simp_all
    with gt show False by simp
  qed
next
  assume "9 * h < 16 * w"
  then have "9 * h + 1 \<le> 16 * w" by simp
  then have "(of_int (9 * h + 1) :: rat) \<le> of_int (16 * w)" by (simp only: of_int_le_iff)
  then have "(of_int (9 * h + 1) :: rat) / (16 * of_int h) \<le> of_int (16 * w) / (16 * of_int h)"
    using assms by (intro divide_right_mono) simp_all
  moreover have "(of_int (9 * h + 1) :: rat) / (16 * of_int h) = 9 / 16 + 1 / (16 * of_int h)"
    using assms by (simp add: field_simps)
  moreover have "(of_int (16 * w) :: rat) / (16 * of_int h) = of_int w / of_int h" by simp
  ultimately have "9 / 16 + 1 / (16 * of_int h) \<le> (of_int w / of_int h :: rat)" by simp
  moreover have "(1 / 2 ^ 36 :: rat) \<le> 1 / (16 * of_int h)"
    using assms by (intro divide_left_mono) simp_all
  ultimately have "9 / 16 + 1 / 2 ^ 36 \<le> (of_int w / of_int h :: rat)" by linarith
  then have "of_int (9 * 2 ^ 32 + 1) * 2 powi (- 36) \<le> (of_int w / of_int h :: rat)" by simp
  then have "of_int (9 * 2 ^ 32 + 1) * 2 powi (- 36) \<le> rnd (of_int w / of_int h)"
    by (intro rnd_lower) simp_all
  then show "9 / 16 < rnd (of_int w / of_int h)" by simp
qed


lemma rnd_abs_bound_pos:
  assumes x: "0 < x" and lt: "x < 2 powi j" and j: "- 1021 \<le> j"
  shows "\<bar>rnd x - x\<bar> \<le> 2 powi (j - 54)"
proof -
  have "(2::rat) powi expo x < 2 powi j" using expo_bounds[OF x] lt by linarith
  then have "expo x < j" by (rule pw_less_exp)
  then have "max (expo x) (- 1022) - 52 \<le> j - 53" using j by linarith
  then have "(2::rat) powi (max (expo x) (- 1022) - 52) \<le> 2 powi (j - 53)"
    by (intro power_int_increasing) simp_all
  then have "quantum x \<le> 2 powi (j - 53)" using x by (simp only: quantum_def abs_of_pos)
  moreover have "(2::rat) powi (j - 53) = 2 powi (j - 54) * 2 powi 1"
    by (subst power_int_add[symmetric]) simp_all
  ultimately have "quantum x / 2 \<le> 2 powi (j - 54)" by simp
  with rnd_abs_err[OF x] show ?thesis by linarith
qed

lemma rnd_abs_bound:
  assumes lt: "\<bar>x\<bar> < 2 powi j" and j: "- 1021 \<le> j"
  shows "\<bar>rnd x - x\<bar> \<le> 2 powi (j - 54)"
proof -
  consider "0 < x" | "x = 0" | "x < 0" by linarith
  then show ?thesis
  proof cases
    case 1 then show ?thesis using lt j by (intro rnd_abs_bound_pos) simp_all
  next
    case 2 then show ?thesis by (simp add: rnd_def)
  next
    case 3
    then have "\<bar>rnd (- x) - (- x)\<bar> \<le> 2 powi (j - 54)"
      using lt j by (intro rnd_abs_bound_pos) simp_all
    then show ?thesis by (simp add: rnd_uminus)
  qed
qed

lemma jdiv_fin:
  assumes "b \<noteq> 0" "\<bar>a / b\<bar> \<le> 2 ^ 52"
  shows "jdiv (Fin a) (Fin b) = Fin (rnd (a / b))"
  using assms fl_fin[of "a / b"] by simp

lemma jmul_fin:
  assumes "\<bar>a * b\<bar> \<le> 2 ^ 52"
  shows "jmul (Fin a) (Fin b) = Fin (rnd (a * b))"
  using assms fl_fin[of "a * b"] by simp

lemma jsub_fin:
  assumes "\<bar>a - b\<bar> \<le> 2 ^ 52"
  shows "jsub (Fin a) (Fin b) = Fin (rnd (a - b))"
  using assms fl_fin[of "a - b"] by (simp add: jsub_def)

lemma centre_eq:
  assumes "0 \<le> p" "p \<le> t" "t \<le> 2 ^ 51"
  shows "jdiv (jsub (Fin t) (Fin p)) (num 2) = Fin (rnd (rnd (t - p) / 2))"
proof -
  have d: "\<bar>t - p\<bar> \<le> 2 ^ 52" using assms by simp
  then have "\<bar>rnd (t - p)\<bar> \<le> 2 ^ 52" by (rule rnd_bound_52)
  then have h: "\<bar>rnd (t - p) / 2\<bar> \<le> 2 ^ 52" by simp
  have 1: "jsub (Fin t) (Fin p) = Fin (rnd (t - p))" by (rule jsub_fin[OF d])
  have 2: "jdiv (Fin (rnd (t - p))) (Fin 2) = Fin (rnd (rnd (t - p) / 2))"
    by (rule jdiv_fin[OF _ h]) simp
  have 3: "num 2 = Fin 2" by (simp add: num_def)
  show ?thesis by (simp only: 1 2 3)
qed

lemma centre_nonneg:
  assumes "p \<le> t"
  shows "0 \<le> rnd (rnd (t - p) / 2)"
proof -
  have "of_int 0 \<le> rnd (t - p)" using assms by (intro rnd_ge_int) simp_all
  then have "of_int 0 \<le> rnd (t - p) / 2" by simp
  then have "of_int 0 \<le> rnd (rnd (t - p) / 2)" by (intro rnd_ge_int) simp_all
  then show ?thesis by simp
qed

text \<open>Centring a part of at most half the total: the offset is at most half the total.\<close>

lemma centre_small:
  fixes T :: int
  assumes "0 \<le> p" "p \<le> of_int T" "\<bar>2 * T\<bar> < 2 ^ 53"
  shows "rnd (rnd (of_int (2 * T) - p) / 2) \<le> of_int T"
proof -
  have "rnd (of_int (2 * T) - p) \<le> of_int (2 * T)" using assms by (intro rnd_le_int) simp_all
  then have "rnd (of_int (2 * T) - p) / 2 \<le> of_int T" by simp
  then show ?thesis using assms by (intro rnd_le_int) simp_all
qed


lemma rnd_grid_512:
  assumes "512 < rnd x"
  shows "\<exists>n. rnd x = of_int n * 2 powi (- 43)"
proof -
  have "512 \<le> x"
  proof (rule ccontr)
    assume "\<not> 512 \<le> x"
    then have "x \<le> of_int 512" by simp
    then have "rnd x \<le> of_int 512" by (intro rnd_le_int) simp_all
    with assms show False by simp
  qed
  then have "2 powi 9 \<le> x" by simp
  from rnd_grid[OF this] show ?thesis by simp
qed

text \<open>Centring a part of more than half the total, on the grid of spacing \<open>2 powi (- 43)\<close>:
  both the subtraction and the halving are exact.\<close>

lemma centre_exact:
  fixes H :: int
  assumes p: "p = of_int n * 2 powi (- 43)" and lo: "of_int H < p" and hi: "p \<le> of_int (2 * H)"
    and H: "0 < H" "H < 2 ^ 10"
  shows "rnd (rnd (of_int (2 * H) - p) / 2) = (of_int (2 * H) - p) / 2"
proof -
  define M where "M = 2 * H * 2 ^ 43 - n"
  have e43: "(2::rat) powi (- 43) * 2 ^ 43 = 1" by simp
  have d: "of_int (2 * H) - p = of_int M * 2 powi (- 43)"
    unfolding M_def p by (simp add: algebra_simps)
  have "0 \<le> of_int (2 * H) - p" using hi by simp
  then have "0 \<le> (of_int M :: rat) * 2 powi (- 43)" by (simp only: d)
  then have "0 \<le> (of_int M :: rat)" by (simp add: zero_le_mult_iff)
  then have M0: "0 \<le> M" by simp
  have "of_int (2 * H) - p < of_int H" using lo by simp
  also have "\<dots> < 2 ^ 10" using H by simp
  finally have "(of_int M :: rat) * 2 powi (- 43) < 2 ^ 10" by (simp only: d)
  then have "(of_int M :: rat) < 2 ^ 53" by simp
  then have "(of_int M :: rat) < of_int (2 ^ 53)" by simp
  then have "M < 2 ^ 53" by (simp only: of_int_less_iff)
  with M0 have Mb: "\<bar>M\<bar> < 2 ^ 53" by simp
  have 1: "rnd (of_int (2 * H) - p) = of_int (2 * H) - p"
    unfolding d by (rule rnd_exact[OF Mb]) simp
  have h: "(of_int (2 * H) - p) / 2 = of_int M * 2 powi (- 44)" unfolding d by simp
  have ex: "rnd (of_int M * 2 powi (- 44)) = of_int M * 2 powi (- 44)"
    by (rule rnd_exact[OF Mb]) simp
  have 2: "rnd ((of_int (2 * H) - p) / 2) = (of_int (2 * H) - p) / 2"
    by (simp only: h ex)
  show ?thesis by (simp only: 1 2)
qed

lemma centre_fits:
  fixes H :: int
  assumes p: "p = rnd x" and lo: "0 \<le> p" and hi: "p \<le> of_int (2 * H)"
    and H: "512 \<le> H" "H < 2 ^ 10"
  shows "rnd (rnd (of_int (2 * H) - p) / 2) + p \<le> of_int (2 * H)"
proof (cases "p \<le> of_int H")
  case True
  have "rnd (rnd (of_int (2 * H) - p) / 2) \<le> of_int H"
    using lo True H by (intro centre_small) simp_all
  with True show ?thesis by simp
next
  case False
  then have gt: "of_int H < p" by simp
  have "(512::rat) \<le> of_int H" using H by simp
  with gt have "512 < rnd x" unfolding p by linarith
  then obtain n where n: "p = of_int n * 2 powi (- 43)" unfolding p using rnd_grid_512 by blast
  have "rnd (rnd (of_int (2 * H) - p) / 2) = (of_int (2 * H) - p) / 2"
    using n gt hi H by (intro centre_exact) simp_all
  then show ?thesis using hi by simp
qed


lemma srcRect_wide:
  fixes w h :: int
  assumes b: "0 < w" "w < 2 ^ 32" "0 < h" "h < 2 ^ 32" and wide: "9 * h < 16 * w"
  shows "srcRect (num w) (num h)
         = Rect (Fin ((of_int w - of_int h * (9 / 16)) / 2)) (Fin 0)
                (Fin (of_int h * (9 / 16))) (Fin (of_int h))"
proof -
  have hb: "(of_int h :: rat) \<le> 2 ^ 32" "(0::rat) < of_int h" using b by simp_all
  have wb: "(of_int w :: rat) \<le> 2 ^ 32" "(0::rat) < of_int w" using b by simp_all
  have wide': "(of_int h :: rat) * 9 < of_int w * 16"
  proof -
    have "(of_int (9 * h) :: rat) < of_int (16 * w)" using wide by (simp only: of_int_less_iff)
    then show ?thesis by (simp add: mult.commute)
  qed
  have a: "jdiv (num w) (num h) = Fin (rnd (of_int w / of_int h))"
    by (rule inputAspect_eq[OF b])
  have gt: "jgt (Fin (rnd (of_int w / of_int h))) (Fin (9 / 16))"
    using inputAspect_gt_iff[OF b] wide by simp
  have m1: "\<bar>9 * h\<bar> < 2 ^ 53" using b by simp
  have e1: "(of_int h :: rat) * (9 / 16) = of_int (9 * h) * 2 powi (- 4)" by simp
  have r1: "rnd (of_int h * (9 / 16)) = of_int h * (9 / 16)"
    unfolding e1 by (rule rnd_exact[OF m1]) simp
  have "\<bar>of_int h * (9 / 16) :: rat\<bar> \<le> 2 ^ 52" using hb by simp
  then have mw: "jmul (Fin (of_int h)) (Fin (9 / 16)) = Fin (of_int h * (9 / 16))"
    by (simp only: jmul_fin r1)
  have m2: "\<bar>16 * w - 9 * h\<bar> < 2 ^ 53" using b by simp
  have e2: "(of_int w :: rat) - of_int h * (9 / 16) = of_int (16 * w - 9 * h) * 2 powi (- 4)"
    by simp
  have r2: "rnd (of_int w - of_int h * (9 / 16)) = of_int w - of_int h * (9 / 16)"
    unfolding e2 by (rule rnd_exact[OF m2]) simp
  have "\<bar>of_int w - of_int h * (9 / 16) :: rat\<bar> \<le> 2 ^ 52" using hb wb wide' by simp
  then have sb: "jsub (Fin (of_int w)) (Fin (of_int h * (9 / 16)))
                 = Fin (of_int w - of_int h * (9 / 16))"
    by (simp only: jsub_fin r2)
  have e3: "((of_int w :: rat) - of_int h * (9 / 16)) / 2
            = of_int (16 * w - 9 * h) * 2 powi (- 5)"
    by simp
  have r3: "rnd ((of_int w - of_int h * (9 / 16)) / 2)
            = (of_int w - of_int h * (9 / 16)) / 2"
    unfolding e3 by (rule rnd_exact[OF m2]) simp
  have h3: "\<bar>(of_int w - of_int h * (9 / 16)) / 2 :: rat\<bar> \<le> 2 ^ 52"
    using hb wb wide' by simp
  have "jdiv (Fin (of_int w - of_int h * (9 / 16))) (Fin 2)
        = Fin (rnd ((of_int w - of_int h * (9 / 16)) / 2))"
    by (rule jdiv_fin[OF _ h3]) simp
  then have dv: "jdiv (Fin (of_int w - of_int h * (9 / 16))) (Fin 2)
                 = Fin ((of_int w - of_int h * (9 / 16)) / 2)"
    by (simp only: r3)
  have n2: "num 2 = Fin 2" "num 0 = Fin 0" by (simp_all add: num_def)
  have nw: "num w = Fin (of_int w)" "num h = Fin (of_int h)" by (simp_all add: num_def)
  show ?thesis
    unfolding srcRect_def outputAspect_eq a Let_def
    using gt by (simp only: if_True nw mw sb n2 dv)
qed


lemma tall_height:
  fixes w h :: int
  assumes b: "0 < w" "w < 2 ^ 32" "0 < h" "h < 2 ^ 32" and tall: "16 * w \<le> 9 * h"
  shows "1 \<le> rnd (of_int w / (9 / 16))" and "rnd (of_int w / (9 / 16)) \<le> of_int h"
    and "\<bar>rnd (of_int w / (9 / 16)) - of_int w / (9 / 16)\<bar> \<le> of_int w / (9 / 16) / 2 ^ 53"
    and "\<bar>rnd (of_int w / (9 / 16)) - of_int w / (9 / 16)\<bar> \<le> 1 / 2 ^ 21"
proof -
  define X :: rat where "X = of_int w / (9 / 16)"
  have wb: "(1::rat) \<le> of_int w" "(of_int w :: rat) < 2 ^ 32" using b by simp_all
  have X1: "1 \<le> X" using wb by (simp add: X_def)
  have "(of_int (16 * w) :: rat) \<le> of_int (9 * h)" using tall by (simp only: of_int_le_iff)
  then have Xh: "X \<le> of_int h" by (simp add: X_def)
  have "of_int 1 \<le> rnd X" using X1 by (intro rnd_ge_int) simp_all
  then show "1 \<le> rnd (of_int w / (9 / 16))" by (simp add: X_def)
  have "rnd X \<le> of_int h" using Xh b by (intro rnd_le_int) simp_all
  then show "rnd (of_int w / (9 / 16)) \<le> of_int h" by (simp add: X_def)
  have "(2::rat) powi (- 1022) \<le> 2 powi 0" by (rule power_int_increasing) simp_all
  then have "2 powi (- 1022) \<le> X" using X1 by simp
  from rnd_rel_err[OF this]
  show "\<bar>rnd (of_int w / (9 / 16)) - of_int w / (9 / 16)\<bar> \<le> of_int w / (9 / 16) / 2 ^ 53"
    by (simp only: X_def)
  have "\<bar>X\<bar> < 2 powi 33" using wb by (simp add: X_def)
  then have "\<bar>rnd X - X\<bar> \<le> 2 powi (33 - 54)" by (rule rnd_abs_bound) simp
  then show "\<bar>rnd (of_int w / (9 / 16)) - of_int w / (9 / 16)\<bar> \<le> 1 / 2 ^ 21"
    by (simp add: X_def)
qed

lemma srcRect_tall:
  fixes w h :: int
  assumes b: "0 < w" "w < 2 ^ 32" "0 < h" "h < 2 ^ 32" and tall: "16 * w \<le> 9 * h"
  shows "srcRect (num w) (num h)
         = Rect (Fin 0) (Fin (rnd (rnd (of_int h - rnd (of_int w / (9 / 16))) / 2)))
                (Fin (of_int w)) (Fin (rnd (of_int w / (9 / 16))))"
proof -
  have a: "jdiv (num w) (num h) = Fin (rnd (of_int w / of_int h))"
    by (rule inputAspect_eq[OF b])
  have ngt: "\<not> jgt (Fin (rnd (of_int w / of_int h))) (Fin (9 / 16))"
    using inputAspect_gt_iff[OF b] tall by simp
  have wb: "(1::rat) \<le> of_int w" "(of_int w :: rat) < 2 ^ 32" using b by simp_all
  have hb: "(of_int h :: rat) < 2 ^ 32" using b by simp
  have "\<bar>of_int w / (9 / 16) :: rat\<bar> \<le> 2 ^ 52" using wb by simp
  then have sh: "jdiv (Fin (of_int w)) (Fin (9 / 16)) = Fin (rnd (of_int w / (9 / 16)))"
    by (intro jdiv_fin) simp_all
  have "jdiv (jsub (Fin (of_int h)) (Fin (rnd (of_int w / (9 / 16))))) (num 2)
        = Fin (rnd (rnd (of_int h - rnd (of_int w / (9 / 16))) / 2))"
    using tall_height(1,2)[OF b tall] hb by (intro centre_eq) simp_all
  then have sy: "jdiv (jsub (Fin (of_int h)) (Fin (rnd (of_int w / (9 / 16))))) (Fin 2)
        = Fin (rnd (rnd (of_int h - rnd (of_int w / (9 / 16))) / 2))"
    by (simp add: num_def)
  have n2: "num 2 = Fin 2" "num 0 = Fin 0" by (simp_all add: num_def)
  have nw: "num w = Fin (of_int w)" "num h = Fin (of_int h)" by (simp_all add: num_def)
  show ?thesis
    unfolding srcRect_def outputAspect_eq a Let_def
    using ngt by (simp only: if_False nw sh n2 sy)
qed

lemma tall_offset:
  fixes w h :: int
  assumes b: "0 < w" "w < 2 ^ 32" "0 < h" "h < 2 ^ 32" and tall: "16 * w \<le> 9 * h"
  shows "0 \<le> rnd (rnd (of_int h - rnd (of_int w / (9 / 16))) / 2)"
    and "\<bar>rnd (rnd (of_int h - rnd (of_int w / (9 / 16))) / 2)
          - (of_int h - of_int w / (9 / 16)) / 2\<bar> \<le> 1 / 2 ^ 21"
proof -
  define X :: rat where "X = of_int w / (9 / 16)"
  define D where "D = of_int h - rnd X"
  have hb: "(of_int h :: rat) < 2 ^ 32" "(0::rat) < of_int h" using b by simp_all
  have s: "1 \<le> rnd X" "rnd X \<le> of_int h" "\<bar>rnd X - X\<bar> \<le> 1 / 2 ^ 21"
    using tall_height(1,2,4)[OF b tall] by (simp_all add: X_def)
  have D0: "0 \<le> D" "D < 2 ^ 32" using s hb by (simp_all add: D_def)
  show "0 \<le> rnd (rnd (of_int h - rnd (of_int w / (9 / 16))) / 2)"
    using s(2) by (intro centre_nonneg) (simp add: X_def)
  have "\<bar>D\<bar> < 2 powi 32" using D0 by simp
  then have "\<bar>rnd D - D\<bar> \<le> 2 powi (32 - 54)" by (rule rnd_abs_bound) simp
  then have e1: "\<bar>rnd D - D\<bar> \<le> 1 / 2 ^ 22" by simp
  have "of_int 0 \<le> rnd D" using D0 by (intro rnd_ge_int) simp_all
  moreover have "rnd D \<le> of_int h" using s(1) b by (intro rnd_le_int) (simp_all add: D_def)
  ultimately have "\<bar>rnd D / 2\<bar> < 2 powi 31" using hb by simp
  then have "\<bar>rnd (rnd D / 2) - rnd D / 2\<bar> \<le> 2 powi (31 - 54)" by (rule rnd_abs_bound) simp
  then have e2: "\<bar>rnd (rnd D / 2) - rnd D / 2\<bar> \<le> 1 / 2 ^ 23" by simp
  define A where "A = rnd (rnd D / 2) - rnd D / 2"
  define B where "B = rnd D - D"
  define C where "C = rnd X - X"
  have "rnd (rnd D / 2) - (of_int h - X) / 2 = A + B / 2 - C / 2"
    by (simp add: A_def B_def C_def D_def field_simps)
  moreover have "\<bar>A + B / 2 - C / 2\<bar> \<le> \<bar>A\<bar> + \<bar>B\<bar> / 2 + \<bar>C\<bar> / 2" by linarith
  ultimately have "\<bar>rnd (rnd D / 2) - (of_int h - X) / 2\<bar> \<le> \<bar>A\<bar> + \<bar>B\<bar> / 2 + \<bar>C\<bar> / 2"
    by simp
  also have "\<dots> \<le> 1 / 2 ^ 23 + 1 / 2 ^ 22 / 2 + 1 / 2 ^ 21 / 2"
    using e1 e2 s(3) unfolding A_def B_def C_def by (intro add_mono divide_right_mono) simp_all
  also have "\<dots> \<le> 1 / 2 ^ 21" by simp
  finally show "\<bar>rnd (rnd (of_int h - rnd (of_int w / (9 / 16))) / 2)
          - (of_int h - of_int w / (9 / 16)) / 2\<bar> \<le> 1 / 2 ^ 21"
    by (simp only: D_def X_def)
qed



lemma aspect_close:
  fixes X s :: rat
  assumes X: "0 < X" and e: "\<bar>s - X\<bar> \<le> X / 2 ^ 53"
  shows "\<bar>X * (9 / 16) / s - 9 / 16\<bar> \<le> 1 / 2 ^ 53"
proof -
  have lo: "X - X / 2 ^ 53 \<le> s" using e by linarith
  have "X / 2 ^ 53 \<le> X * (7 / 16)" using X by simp
  with lo have s16: "X * (9 / 16) \<le> s" by linarith
  moreover have "0 < X * (9 / 16)" using X by simp
  ultimately have spos: "0 < s" by linarith
  have eq: "X * (9 / 16) / s - 9 / 16 = (9 / 16) * ((X - s) / s)"
    using spos by (simp add: field_simps)
  have a1: "\<bar>(9 / 16 :: rat) * ((X - s) / s)\<bar> = \<bar>9 / 16\<bar> * \<bar>(X - s) / s\<bar>" by (rule abs_mult)
  have a2: "\<bar>(X - s) / s\<bar> = \<bar>X - s\<bar> / \<bar>s\<bar>" by (rule abs_divide)
  have a3: "\<bar>s\<bar> = s" "\<bar>X - s\<bar> = \<bar>s - X\<bar>" "\<bar>9 / 16 :: rat\<bar> = 9 / 16"
    using spos by (simp_all add: abs_minus_commute)
  have "\<bar>s - X\<bar> / s \<le> (X / 2 ^ 53) / s" using e spos by (intro divide_right_mono) simp_all
  then have "(9 / 16) * (\<bar>s - X\<bar> / s) \<le> (9 / 16) * ((X / 2 ^ 53) / s)"
    by (intro mult_left_mono) simp_all
  also have "(9 / 16) * ((X / 2 ^ 53) / s) = (X * (9 / 16) / s) / 2 ^ 53" by simp
  also have "(X * (9 / 16) / s) / 2 ^ 53 \<le> 1 / 2 ^ 53"
  proof (intro divide_right_mono)
    show "X * (9 / 16) / s \<le> 1" using s16 spos by (simp add: pos_divide_le_eq)
  qed simp
  finally have "(9 / 16) * (\<bar>s - X\<bar> / s) \<le> 1 / 2 ^ 53" .
  then show ?thesis by (simp only: eq a1 a2 a3)
qed


lemma centre_err:
  fixes T :: int
  assumes p: "0 \<le> p" "p \<le> of_int T" and T: "0 < T" "T < 2 ^ 11"
  shows "\<bar>rnd (rnd (of_int T - p) / 2) - (of_int T - p) / 2\<bar> \<le> 1 / 2 ^ 43"
proof -
  define d where "d = of_int T - p"
  have Tb: "(of_int T :: rat) < 2 ^ 11" using T by simp
  have d0: "0 \<le> d" "d \<le> of_int T" using p by (simp_all add: d_def)
  have "\<bar>d\<bar> < 2 powi 11" using d0 Tb by simp
  then have "\<bar>rnd d - d\<bar> \<le> 2 powi (11 - 54)" by (rule rnd_abs_bound) simp
  then have e1: "\<bar>rnd d - d\<bar> \<le> 1 / 2 ^ 43" by simp
  have "of_int 0 \<le> rnd d" using d0 by (intro rnd_ge_int) simp_all
  moreover have "rnd d \<le> of_int T" using d0 T by (intro rnd_le_int) simp_all
  ultimately have "\<bar>rnd d / 2\<bar> < 2 powi 10" using Tb by simp
  then have "\<bar>rnd (rnd d / 2) - rnd d / 2\<bar> \<le> 2 powi (10 - 54)" by (rule rnd_abs_bound) simp
  then have e2: "\<bar>rnd (rnd d / 2) - rnd d / 2\<bar> \<le> 1 / 2 ^ 44" by simp
  define A where "A = rnd (rnd d / 2) - rnd d / 2"
  define B where "B = rnd d - d"
  have "rnd (rnd d / 2) - d / 2 = A + B / 2" by (simp add: A_def B_def field_simps)
  moreover have "\<bar>A + B / 2\<bar> \<le> \<bar>A\<bar> + \<bar>B\<bar> / 2" by linarith
  ultimately have "\<bar>rnd (rnd d / 2) - d / 2\<bar> \<le> \<bar>A\<bar> + \<bar>B\<bar> / 2" by simp
  also have "\<dots> \<le> 1 / 2 ^ 44 + 1 / 2 ^ 43 / 2"
    using e1 e2 unfolding A_def B_def by (intro add_mono divide_right_mono) simp_all
  also have "\<dots> = 1 / 2 ^ 43" by simp
  finally show ?thesis by (simp only: d_def)
qed

lemma aspect_props:
  fixes w h :: int
  assumes b: "0 < w" "w < 2 ^ 32" "0 < h" "h < 2 ^ 32"
  defines "r \<equiv> (of_int w / of_int h :: rat)"
  shows "1 / 2 ^ 32 \<le> rnd r" and "rnd r \<le> 2 ^ 32" and "\<bar>rnd r - r\<bar> \<le> r / 2 ^ 53"
proof -
  have rb: "0 < r" "r \<le> 2 ^ 32" "1 / 2 ^ 32 \<le> r"
    using ratio_bounds[OF b] by (simp_all add: r_def)
  have "of_int 1 * 2 powi (- 32) \<le> r" using rb by simp
  then have "of_int 1 * 2 powi (- 32) \<le> rnd r" by (intro rnd_lower) simp_all
  then show "1 / 2 ^ 32 \<le> rnd r" by simp
  have "r \<le> of_int (2 ^ 32)" using rb by simp
  then have "rnd r \<le> of_int (2 ^ 32)" by (intro rnd_le_int) simp_all
  then show "rnd r \<le> 2 ^ 32" by simp
  have "(2::rat) powi (- 1022) \<le> 2 powi (- 32)" by (rule power_int_increasing) simp_all
  also have "\<dots> \<le> r" using rb by simp
  finally show "\<bar>rnd r - r\<bar> \<le> r / 2 ^ 53" by (rule rnd_rel_err)
qed


lemma fg_wide_height:
  fixes w h :: int
  assumes b: "0 < w" "w < 2 ^ 32" "0 < h" "h < 2 ^ 32" and wide: "9 * h < 16 * w"
  defines "a \<equiv> rnd (of_int w / of_int h)"
  shows "0 < rnd (1080 / a)" and "rnd (1080 / a) \<le> 1920"
    and "\<bar>rnd (1080 / a) - 1080 / (of_int w / of_int h)\<bar> \<le> 1 / 2 ^ 41"
proof -
  define r :: rat where "r = of_int w / of_int h"
  have a: "a = rnd r" by (simp add: a_def r_def)
  have rpos: "0 < r" using ratio_bounds(1)[OF b] by (simp add: r_def)
  have ap: "rnd r \<le> 2 ^ 32" "\<bar>rnd r - r\<bar> \<le> r / 2 ^ 53"
    using aspect_props(2,3)[OF b] by (simp_all add: r_def)
  have agt: "9 / 16 < a" using inputAspect_gt_iff[OF b] wide by (simp add: a_def)
  then have apos: "0 < a" by linarith
  define y where "y = 1080 / a"
  have ypos: "0 < y" using apos by (simp add: y_def)
  have ylt: "y < 1920"
  proof -
    have "1080 < 1920 * a" using agt by linarith
    then show ?thesis using apos by (simp add: y_def pos_divide_less_eq)
  qed
  have "1080 \<le> y * 2 ^ 32"
  proof -
    have "1080 = y * a" using apos by (simp add: y_def)
    also have "\<dots> \<le> y * 2 ^ 32" using ap(1) ypos unfolding a by (intro mult_left_mono) simp_all
    finally show ?thesis .
  qed
  then have "1 / 2 ^ 22 \<le> y" by simp
  then have "of_int 1 * 2 powi (- 22) \<le> y" by simp
  then have "of_int 1 * 2 powi (- 22) \<le> rnd y" by (intro rnd_lower) simp_all
  then show "0 < rnd (1080 / a)" by (simp add: y_def)
  have "y \<le> of_int 1920" using ylt by simp
  then have "rnd y \<le> of_int 1920" by (intro rnd_le_int) simp_all
  then show "rnd (1080 / a) \<le> 1920" by (simp add: y_def)
  have "\<bar>y\<bar> < 2 powi 11" using ypos ylt by simp
  then have "\<bar>rnd y - y\<bar> \<le> 2 powi (11 - 54)" by (rule rnd_abs_bound) simp
  then have e1: "\<bar>rnd y - y\<bar> \<le> 1 / 2 ^ 43" by simp
  have "y - 1080 / r = y * ((r - a) / r)"
    using apos rpos by (simp add: y_def field_simps)
  then have "\<bar>y - 1080 / r\<bar> = \<bar>y\<bar> * (\<bar>r - a\<bar> / \<bar>r\<bar>)"
    by (simp only: abs_mult abs_divide)
  also have "\<dots> = y * (\<bar>a - r\<bar> / r)" using ypos rpos by (simp add: abs_minus_commute)
  also have "\<dots> \<le> y * ((r / 2 ^ 53) / r)"
    using ap(2) ypos rpos unfolding a by (intro mult_left_mono divide_right_mono) simp_all
  also have "\<dots> = y / 2 ^ 53" using rpos by simp
  also have "\<dots> \<le> 1920 / 2 ^ 53" using ylt by (intro divide_right_mono) simp_all
  finally have e2: "\<bar>y - 1080 / r\<bar> \<le> 1920 / 2 ^ 53" .
  have "\<bar>rnd y - 1080 / r\<bar> \<le> \<bar>rnd y - y\<bar> + \<bar>y - 1080 / r\<bar>" by linarith
  also have "\<dots> \<le> 1 / 2 ^ 43 + 1920 / 2 ^ 53" using e1 e2 by (intro add_mono)
  also have "\<dots> \<le> 1 / 2 ^ 41" by simp
  finally show "\<bar>rnd (1080 / a) - 1080 / (of_int w / of_int h)\<bar> \<le> 1 / 2 ^ 41"
    by (simp only: y_def r_def)
qed



lemma fg_tall_width:
  fixes w h :: int
  assumes b: "0 < w" "w < 2 ^ 32" "0 < h" "h < 2 ^ 32" and tall: "16 * w \<le> 9 * h"
  defines "a \<equiv> rnd (of_int w / of_int h)"
  shows "0 < rnd (1920 * a)" and "rnd (1920 * a) \<le> 1080"
    and "\<bar>rnd (1920 * a) - 1920 * (of_int w / of_int h)\<bar> \<le> 1 / 2 ^ 41"
proof -
  define r :: rat where "r = of_int w / of_int h"
  have a: "a = rnd r" by (simp add: a_def r_def)
  have rpos: "0 < r" using ratio_bounds(1)[OF b] by (simp add: r_def)
  have "(of_int (16 * w) :: rat) \<le> of_int (9 * h)" using tall by (simp only: of_int_le_iff)
  then have "(of_int w :: rat) * 16 \<le> of_int h * 9" by (simp add: mult.commute)
  moreover have "(0::rat) < of_int h" using b by simp
  ultimately have rle: "r \<le> 9 / 16" unfolding r_def by (simp add: pos_divide_le_eq)
  have ap: "1 / 2 ^ 32 \<le> rnd r" "\<bar>rnd r - r\<bar> \<le> r / 2 ^ 53"
    using aspect_props(1,3)[OF b] by (simp_all add: r_def)
  have ale: "a \<le> 9 / 16" using inputAspect_gt_iff[OF b] tall by (simp add: a_def)
  define y where "y = 1920 * a"
  have ylo: "1 / 2 ^ 22 \<le> y" using ap(1) unfolding a[symmetric] y_def by simp
  have yhi: "y \<le> 1080" using ale by (simp add: y_def)
  have "of_int 1 * 2 powi (- 22) \<le> y" using ylo by simp
  then have "of_int 1 * 2 powi (- 22) \<le> rnd y" by (intro rnd_lower) simp_all
  then show "0 < rnd (1920 * a)" by (simp add: y_def)
  have "y \<le> of_int 1080" using yhi by simp
  then have "rnd y \<le> of_int 1080" by (intro rnd_le_int) simp_all
  then show "rnd (1920 * a) \<le> 1080" by (simp add: y_def)
  have "\<bar>y\<bar> < 2 powi 11" using ylo yhi by simp
  then have "\<bar>rnd y - y\<bar> \<le> 2 powi (11 - 54)" by (rule rnd_abs_bound) simp
  then have e1: "\<bar>rnd y - y\<bar> \<le> 1 / 2 ^ 43" by simp
  have yr: "y - 1920 * r = 1920 * (a - r)" by (simp add: y_def algebra_simps)
  have "\<bar>y - 1920 * r\<bar> = \<bar>1920 * (a - r)\<bar>" by (simp only: yr)
  also have "\<dots> = 1920 * \<bar>a - r\<bar>" by (simp only: abs_mult abs_numeral)
  also have "\<dots> \<le> 1920 * (r / 2 ^ 53)" using ap(2) unfolding a by (intro mult_left_mono) simp_all
  also have "\<dots> \<le> 1920 * ((9 / 16) / 2 ^ 53)"
    using rle by (intro mult_left_mono divide_right_mono) simp_all
  finally have e2: "\<bar>y - 1920 * r\<bar> \<le> 1080 / 2 ^ 53" by simp
  have "\<bar>rnd y - 1920 * r\<bar> \<le> \<bar>rnd y - y\<bar> + \<bar>y - 1920 * r\<bar>" by linarith
  also have "\<dots> \<le> 1 / 2 ^ 43 + 1080 / 2 ^ 53" using e1 e2 by (intro add_mono)
  also have "\<dots> \<le> 1 / 2 ^ 41" by simp
  finally show "\<bar>rnd (1920 * a) - 1920 * (of_int w / of_int h)\<bar> \<le> 1 / 2 ^ 41"
    by (simp only: y_def r_def)
qed



lemma fgDestRect_wide:
  fixes w h :: int
  assumes b: "0 < w" "w < 2 ^ 32" "0 < h" "h < 2 ^ 32" and wide: "9 * h < 16 * w"
  shows "fgDestRect (num w) (num h)
         = Rect (Fin 0) (Fin (rnd (rnd (1920 - rnd (1080 / rnd (of_int w / of_int h))) / 2)))
                (Fin 1080) (Fin (rnd (1080 / rnd (of_int w / of_int h))))"
proof -
  define a where "a = rnd (of_int w / of_int h)"
  define H where "H = rnd (1080 / a)"
  have a: "jdiv (num w) (num h) = Fin a" unfolding a_def by (rule inputAspect_eq[OF b])
  have agt: "9 / 16 < a" using inputAspect_gt_iff[OF b] wide by (simp add: a_def)
  then have gt: "jgt (Fin a) (Fin (9 / 16))" by simp
  have apos: "0 < a" using agt by linarith
  have "1080 < 1920 * a" using agt by linarith
  then have "1080 / a < 1920" using apos by (simp add: pos_divide_less_eq)
  moreover have "0 < 1080 / a" using apos by simp
  ultimately have "\<bar>1080 / a\<bar> \<le> 2 ^ 52" by simp
  then have fh: "jdiv (Fin 1080) (Fin a) = Fin H"
    unfolding H_def using apos by (intro jdiv_fin) simp_all
  have Hb: "0 < H" "H \<le> 1920" using fg_wide_height(1,2)[OF b wide] by (simp_all add: H_def a_def)
  have "jdiv (jsub (Fin 1080) (Fin 1080)) (num 2) = Fin (rnd (rnd (1080 - 1080) / 2))"
    by (rule centre_eq) simp_all
  then have fx: "jdiv (jsub (Fin 1080) (Fin 1080)) (Fin 2) = Fin 0"
    by (simp add: rnd_zero num_def)
  have "jdiv (jsub (Fin 1920) (Fin H)) (num 2) = Fin (rnd (rnd (1920 - H) / 2))"
    using Hb by (intro centre_eq) simp_all
  then have fy: "jdiv (jsub (Fin 1920) (Fin H)) (Fin 2) = Fin (rnd (rnd (1920 - H) / 2))"
    by (simp add: num_def)
  have n: "num OUTPUT_WIDTH = Fin 1080" "num OUTPUT_HEIGHT = Fin 1920" "num 2 = Fin 2"
    by (simp_all add: num_def OUTPUT_WIDTH_def OUTPUT_HEIGHT_def)
  have "fgDestRect (num w) (num h) = Rect (Fin 0) (Fin (rnd (rnd (1920 - H) / 2))) (Fin 1080) (Fin H)"
    unfolding fgDestRect_def outputAspect_eq a Let_def
    using gt by (simp only: if_True prod.case n fh fx fy)
  then show ?thesis by (simp only: H_def a_def)
qed

lemma fgDestRect_tall:
  fixes w h :: int
  assumes b: "0 < w" "w < 2 ^ 32" "0 < h" "h < 2 ^ 32" and tall: "16 * w \<le> 9 * h"
  shows "fgDestRect (num w) (num h)
         = Rect (Fin (rnd (rnd (1080 - rnd (1920 * rnd (of_int w / of_int h))) / 2))) (Fin 0)
                (Fin (rnd (1920 * rnd (of_int w / of_int h)))) (Fin 1920)"
proof -
  define a where "a = rnd (of_int w / of_int h)"
  define W where "W = rnd (1920 * a)"
  have a: "jdiv (num w) (num h) = Fin a" unfolding a_def by (rule inputAspect_eq[OF b])
  have ale: "a \<le> 9 / 16" using inputAspect_gt_iff[OF b] tall by (simp add: a_def)
  then have ngt: "\<not> jgt (Fin a) (Fin (9 / 16))" by simp
  have "(0::rat) \<le> 1 / 2 ^ 32" by simp
  then have alo: "0 \<le> a" using aspect_props(1)[OF b] unfolding a_def by linarith
  have "\<bar>1920 * a\<bar> \<le> 2 ^ 52" using ale alo by simp
  then have fw: "jmul (Fin 1920) (Fin a) = Fin W" unfolding W_def by (rule jmul_fin)
  have Wb: "0 < W" "W \<le> 1080" using fg_tall_width(1,2)[OF b tall] by (simp_all add: W_def a_def)
  have "jdiv (jsub (Fin 1920) (Fin 1920)) (num 2) = Fin (rnd (rnd (1920 - 1920) / 2))"
    by (rule centre_eq) simp_all
  then have fy: "jdiv (jsub (Fin 1920) (Fin 1920)) (Fin 2) = Fin 0"
    by (simp add: rnd_zero num_def)
  have "jdiv (jsub (Fin 1080) (Fin W)) (num 2) = Fin (rnd (rnd (1080 - W) / 2))"
    using Wb by (intro centre_eq) simp_all
  then have fx: "jdiv (jsub (Fin 1080) (Fin W)) (Fin 2) = Fin (rnd (rnd (1080 - W) / 2))"
    by (simp add: num_def)
  have n: "num OUTPUT_WIDTH = Fin 1080" "num OUTPUT_HEIGHT = Fin 1920" "num 2 = Fin 2"
    by (simp_all add: num_def OUTPUT_WIDTH_def OUTPUT_HEIGHT_def)
  have "fgDestRect (num w) (num h) = Rect (Fin (rnd (rnd (1080 - W) / 2))) (Fin 0) (Fin W) (Fin 1920)"
    unfolding fgDestRect_def outputAspect_eq a Let_def
    using ngt by (simp only: if_False prod.case n fw fx fy)
  then show ?thesis by (simp only: W_def a_def)
qed

section \<open>The two compositors\<close>

lemma toString_30: "toString 30 = ''30''"
  by (simp add: toString_def nat_toString_2 digit_char_def)

lemma crop_canvas:
  "convertToStorySize_crop True bitmap
   = Inr \<lparr>width_canvas = 1080, height_canvas = 1920,
          context2d = \<lparr>filter_ctx = ''none'',
            calls = [DrawImage ''none'' bitmap
                       (srcRect (num (uint (width bitmap))) (num (uint (height bitmap))))
                       (Rect (Fin 0) (Fin 0) (Fin 1080) (Fin 1920))]\<rparr>\<rparr>"
  by (simp add: convertToStorySize_crop_def Let_def drawImage_def newContext_def num_def
      OUTPUT_WIDTH_def OUTPUT_HEIGHT_def)

lemma blur_canvas:
  "convertToStorySize_blur True bitmap
   = Inr \<lparr>width_canvas = 1080, height_canvas = 1920,
          context2d = \<lparr>filter_ctx = ''none'',
            calls = [DrawImage ''blur(30px)'' bitmap
                       (bgSrcRect (num (uint (width bitmap))) (num (uint (height bitmap))))
                       (Rect (Fin (- 30)) (Fin (- 30)) (Fin 1140) (Fin 1980)),
                     DrawImage ''none'' bitmap
                       (Rect (Fin 0) (Fin 0) (num (uint (width bitmap))) (num (uint (height bitmap))))
                       (fgDestRect (num (uint (width bitmap))) (num (uint (height bitmap))))]\<rparr>\<rparr>"
proof -
  have "fl (of_int 60) = Fin (of_int 60)" by (rule fl_int) simp
  then have m: "jmul (num BLUR_AMOUNT) (num 2) = Fin 60" by (simp add: num_def BLUR_AMOUNT_def)
  have "fl (of_int 1140) = Fin (of_int 1140)" by (rule fl_int) simp
  then have a1: "jadd (num OUTPUT_WIDTH) (Fin 60) = Fin 1140" by (simp add: num_def OUTPUT_WIDTH_def)
  have "fl (of_int 1980) = Fin (of_int 1980)" by (rule fl_int) simp
  then have a2: "jadd (num OUTPUT_HEIGHT) (Fin 60) = Fin 1980" by (simp add: num_def OUTPUT_HEIGHT_def)
  have n: "jneg (num BLUR_AMOUNT) = Fin (- 30)" by (simp add: num_def BLUR_AMOUNT_def)
  have t: "toString BLUR_AMOUNT = ''30''" by (simp add: BLUR_AMOUNT_def toString_30)
  show ?thesis
    unfolding convertToStorySize_blur_def Let_def m a1 a2 n t
    by (simp add: drawImage_def newContext_def num_def OUTPUT_WIDTH_def OUTPUT_HEIGHT_def)
qed


lemma uint32_bound: "uint (x :: 32 word) < 2 ^ 32"
  using uint_lt2p[of x] by simp

lemma wide_iff:
  fixes wi hi :: int
  assumes "0 < hi"
  shows "(9 / 16 :: rat) < of_int wi / of_int hi \<longleftrightarrow> 9 * hi < 16 * wi"
proof -
  have h: "(0::rat) < of_int hi" using assms by simp
  have "(9 / 16 :: rat) < of_int wi / of_int hi \<longleftrightarrow> (of_int (9 * hi) :: rat) < of_int (16 * wi)"
    using h by (simp add: field_simps)
  also have "\<dots> \<longleftrightarrow> 9 * hi < 16 * wi" by (simp only: of_int_less_iff)
  finally show ?thesis .
qed

text \<open>
  Claim C1. Centre-crop variant, for a bitmap of positive width \<open>w\<close> and height \<open>h\<close>.
  The canvas is 1080 by 1920 and receives one \<^verbatim>\<open>drawImage\<close> call, onto the whole
  canvas, from a source rectangle chosen by the cover rule. The comparison
  \<^verbatim>\<open>inputAspect > outputAspect\<close> computed in binary64 agrees with the exact comparison
  of \<open>w / h\<close> with \<open>1080 / 1920\<close>. If the source is wider, the rectangle has height
  \<open>h\<close>, width \<open>h * (1080 / 1920)\<close>, \<open>x = (w - width) / 2\<close> and \<open>y = 0\<close>, all computed
  without rounding error. Otherwise it has width \<open>w\<close>, \<open>x = 0\<close>, and height and \<open>y\<close>
  within \<open>1 / 2 ^ 21\<close> of \<open>w / (1080 / 1920)\<close> and \<open>(h - height) / 2\<close>. In both cases the
  aspect ratio of the rectangle is within \<open>1 / 2 ^ 53\<close> of \<open>1080 / 1920\<close>.
\<close>

theorem crop_fill_geometry:
  fixes bitmap :: ImageBitmap and w h :: rat
  assumes wpos: "0 < uint (width bitmap)" and hpos: "0 < uint (height bitmap)"
    and w: "w = of_int (uint (width bitmap))" and h: "h = of_int (uint (height bitmap))"
  shows "\<exists>sx sy sw sh.
     convertToStorySize_crop True bitmap
       = Inr \<lparr>width_canvas = 1080, height_canvas = 1920,
              context2d = \<lparr>filter_ctx = ''none'',
                calls = [DrawImage ''none'' bitmap (Rect (Fin sx) (Fin sy) (Fin sw) (Fin sh))
                           (Rect (Fin 0) (Fin 0) (Fin 1080) (Fin 1920))]\<rparr>\<rparr>
     \<and> (jgt (jdiv (Fin w) (Fin h)) (jdiv (num OUTPUT_WIDTH) (num OUTPUT_HEIGHT))
          \<longleftrightarrow> 1080 / 1920 < w / h)
     \<and> (1080 / 1920 < w / h \<longrightarrow>
          sh = h \<and> sw = h * (1080 / 1920) \<and> sx = (w - sw) / 2 \<and> sy = 0)
     \<and> (w / h \<le> 1080 / 1920 \<longrightarrow>
          sw = w \<and> \<bar>sh - w / (1080 / 1920)\<bar> \<le> 1 / 2 ^ 21 \<and>
          sx = 0 \<and> \<bar>sy - (h - w / (1080 / 1920)) / 2\<bar> \<le> 1 / 2 ^ 21)
     \<and> 0 \<le> sx \<and> 0 \<le> sy \<and> 0 < sw \<and> 0 < sh
     \<and> \<bar>sw / sh - 1080 / 1920\<bar> \<le> 1 / 2 ^ 53"
proof -
  define wi where "wi = uint (width bitmap)"
  define hi where "hi = uint (height bitmap)"
  have b: "0 < wi" "wi < 2 ^ 32" "0 < hi" "hi < 2 ^ 32"
    using wpos hpos uint32_bound[of "width bitmap"] uint32_bound[of "height bitmap"]
    by (simp_all add: wi_def hi_def)
  have w': "w = of_int wi" and h': "h = of_int hi" by (simp_all add: w h wi_def hi_def)
  have wp: "0 < w" and hp: "0 < h" using b by (simp_all add: w' h')
  have canvas: "convertToStorySize_crop True bitmap
       = Inr \<lparr>width_canvas = 1080, height_canvas = 1920,
              context2d = \<lparr>filter_ctx = ''none'',
                calls = [DrawImage ''none'' bitmap (srcRect (num wi) (num hi))
                           (Rect (Fin 0) (Fin 0) (Fin 1080) (Fin 1920))]\<rparr>\<rparr>"
    unfolding wi_def hi_def by (rule crop_canvas)
  have iff: "(9 / 16 :: rat) < w / h \<longleftrightarrow> 9 * hi < 16 * wi"
    unfolding w' h' by (rule wide_iff[OF b(3)])
  have "jdiv (Fin w) (Fin h) = Fin (rnd (w / h))"
    using inputAspect_eq[OF b] by (simp add: num_def w' h')
  then have cmp: "jgt (jdiv (Fin w) (Fin h)) (jdiv (num OUTPUT_WIDTH) (num OUTPUT_HEIGHT))
          \<longleftrightarrow> 1080 / 1920 < w / h"
    using inputAspect_gt_iff[OF b] iff by (simp add: outputAspect_eq w' h')
  show ?thesis
  proof (cases "9 * hi < 16 * wi")
    case True
    then have gt: "9 / 16 < w / h" using iff by simp
    then have "h * 9 < w * 16" using hp by (simp add: field_simps)
    then have sxpos: "0 \<le> (w - h * (9 / 16)) / 2" by simp
    have r: "srcRect (num wi) (num hi)
             = Rect (Fin ((w - h * (9 / 16)) / 2)) (Fin 0) (Fin (h * (9 / 16))) (Fin h)"
      unfolding w' h' by (rule srcRect_wide[OF b True])
    have asp: "h * (9 / 16) / h = 9 / 16" using hp by simp
    show ?thesis
      apply (rule exI[of _ "(w - h * (9 / 16)) / 2"], rule exI[of _ 0])
      apply (rule exI[of _ "h * (9 / 16)"], rule exI[of _ h])
      using cmp gt sxpos hp asp by (simp add: canvas r)
  next
    case False
    then have tall: "16 * wi \<le> 9 * hi" by simp
    from False have le: "w / h \<le> 9 / 16" using iff by simp
    define sh where "sh = rnd (w / (9 / 16))"
    define sy where "sy = rnd (rnd (h - sh) / 2)"
    have r: "srcRect (num wi) (num hi) = Rect (Fin 0) (Fin sy) (Fin w) (Fin sh)"
      unfolding sy_def sh_def w' h' by (rule srcRect_tall[OF b tall])
    have s1: "1 \<le> sh" "\<bar>sh - w / (9 / 16)\<bar> \<le> w / (9 / 16) / 2 ^ 53"
      "\<bar>sh - w / (9 / 16)\<bar> \<le> 1 / 2 ^ 21"
      using tall_height(1,3,4)[OF b tall] by (simp_all add: sh_def w')
    have s2: "0 \<le> sy" "\<bar>sy - (h - w / (9 / 16)) / 2\<bar> \<le> 1 / 2 ^ 21"
      using tall_offset[OF b tall] by (simp_all add: sy_def sh_def w' h')
    have "0 < w / (9 / 16)" using wp by simp
    from aspect_close[OF this s1(2)]
    have asp: "\<bar>w / sh - 9 / 16\<bar> \<le> 1 / 2 ^ 53" by simp
    have shp: "0 < sh" using s1(1) by linarith
    show ?thesis
      apply (rule exI[of _ 0], rule exI[of _ sy], rule exI[of _ w], rule exI[of _ sh])
      using cmp le s1(3) s2 wp shp asp by (simp add: canvas r)
  qed
qed


theorem crop_fill_geometry_witness:
  "\<exists>sx sy sw sh.
     convertToStorySize_crop True \<lparr>width = 4000, height = 2000\<rparr>
       = Inr \<lparr>width_canvas = 1080, height_canvas = 1920,
              context2d = \<lparr>filter_ctx = ''none'',
                calls = [DrawImage ''none'' \<lparr>width = 4000, height = 2000\<rparr>
                           (Rect (Fin sx) (Fin sy) (Fin sw) (Fin sh))
                           (Rect (Fin 0) (Fin 0) (Fin 1080) (Fin 1920))]\<rparr>\<rparr>
     \<and> sh = 2000 \<and> sw = 1125 \<and> sx = 2875 / 2 \<and> sy = 0
     \<and> \<bar>sw / sh - 1080 / 1920\<bar> \<le> 1 / 2 ^ 53"
proof -
  from crop_fill_geometry[of "\<lparr>width = 4000, height = 2000\<rparr>" 4000 2000]
  obtain sx sy sw sh where
    "convertToStorySize_crop True \<lparr>width = 4000, height = 2000\<rparr>
       = Inr \<lparr>width_canvas = 1080, height_canvas = 1920,
              context2d = \<lparr>filter_ctx = ''none'',
                calls = [DrawImage ''none'' \<lparr>width = 4000, height = 2000\<rparr>
                           (Rect (Fin sx) (Fin sy) (Fin sw) (Fin sh))
                           (Rect (Fin 0) (Fin 0) (Fin 1080) (Fin 1920))]\<rparr>\<rparr>"
    and "sh = 2000 \<and> sw = 2000 * (1080 / 1920) \<and> sx = (4000 - sw) / 2 \<and> sy = 0"
    and "\<bar>sw / sh - 1080 / 1920\<bar> \<le> 1 / 2 ^ 53"
    by auto
  then show ?thesis by auto
qed


text \<open>
  Claim C2. Blurred-background variant, for a bitmap of positive width \<open>w\<close> and
  height \<open>h\<close>. Two \<^verbatim>\<open>drawImage\<close> calls are made, in this order. The first, under the
  filter \<^verbatim>\<open>blur(30px)\<close>, draws the background into the rectangle at \<open>(- 30, - 30)\<close> of
  size \<open>1080 + 60\<close> by \<open>1920 + 60\<close>, which ends 30 beyond the canvas on the right and at
  the bottom as well. The second, unfiltered, draws the whole source into the
  foreground rectangle: width 1080 and height \<open>1080 / (w / h)\<close> for a wider source,
  height 1920 and width \<open>1920 * (w / h)\<close> otherwise, centred, each up to rounding
  (\<open>1 / 2 ^ 41\<close> for the size, \<open>1 / 2 ^ 43\<close> for the centring). The foreground rectangle
  lies within \<open>[0, 1080] \<times> [0, 1920]\<close> and spans the full width or the full height.
\<close>

theorem blur_pad_fit_geometry:
  fixes bitmap :: ImageBitmap and w h :: rat
  assumes wpos: "0 < uint (width bitmap)" and hpos: "0 < uint (height bitmap)"
    and w: "w = of_int (uint (width bitmap))" and h: "h = of_int (uint (height bitmap))"
  shows "\<exists>bgx bgy bgw bgh fx fy fw fh.
     convertToStorySize_blur True bitmap
       = Inr \<lparr>width_canvas = 1080, height_canvas = 1920,
              context2d = \<lparr>filter_ctx = ''none'',
                calls = [DrawImage ''blur(30px)'' bitmap (bgSrcRect (Fin w) (Fin h))
                           (Rect (Fin bgx) (Fin bgy) (Fin bgw) (Fin bgh)),
                         DrawImage ''none'' bitmap (Rect (Fin 0) (Fin 0) (Fin w) (Fin h))
                           (Rect (Fin fx) (Fin fy) (Fin fw) (Fin fh))]\<rparr>\<rparr>
     \<and> bgx = - 30 \<and> bgy = - 30 \<and> bgw = 1080 + 60 \<and> bgh = 1920 + 60
     \<and> bgx + bgw = 1080 + 30 \<and> bgy + bgh = 1920 + 30
     \<and> (jgt (jdiv (Fin w) (Fin h)) (jdiv (num OUTPUT_WIDTH) (num OUTPUT_HEIGHT))
          \<longleftrightarrow> 1080 / 1920 < w / h)
     \<and> (1080 / 1920 < w / h \<longrightarrow> fw = 1080 \<and> \<bar>fh - 1080 / (w / h)\<bar> \<le> 1 / 2 ^ 41)
     \<and> (w / h \<le> 1080 / 1920 \<longrightarrow> fh = 1920 \<and> \<bar>fw - 1920 * (w / h)\<bar> \<le> 1 / 2 ^ 41)
     \<and> \<bar>fx - (1080 - fw) / 2\<bar> \<le> 1 / 2 ^ 43 \<and> \<bar>fy - (1920 - fh) / 2\<bar> \<le> 1 / 2 ^ 43
     \<and> 0 \<le> fx \<and> 0 \<le> fy \<and> 0 < fw \<and> 0 < fh
     \<and> fx + fw \<le> 1080 \<and> fy + fh \<le> 1920
     \<and> ((fx = 0 \<and> fw = 1080) \<or> (fy = 0 \<and> fh = 1920))"
proof -
  define wi where "wi = uint (width bitmap)"
  define hi where "hi = uint (height bitmap)"
  have b: "0 < wi" "wi < 2 ^ 32" "0 < hi" "hi < 2 ^ 32"
    using wpos hpos uint32_bound[of "width bitmap"] uint32_bound[of "height bitmap"]
    by (simp_all add: wi_def hi_def)
  have w': "w = of_int wi" and h': "h = of_int hi" by (simp_all add: w h wi_def hi_def)
  have canvas: "convertToStorySize_blur True bitmap
       = Inr \<lparr>width_canvas = 1080, height_canvas = 1920,
              context2d = \<lparr>filter_ctx = ''none'',
                calls = [DrawImage ''blur(30px)'' bitmap (bgSrcRect (Fin w) (Fin h))
                           (Rect (Fin (- 30)) (Fin (- 30)) (Fin 1140) (Fin 1980)),
                         DrawImage ''none'' bitmap (Rect (Fin 0) (Fin 0) (Fin w) (Fin h))
                           (fgDestRect (num wi) (num hi))]\<rparr>\<rparr>"
    using blur_canvas[of bitmap] by (simp add: wi_def hi_def w h num_def)
  have iff: "(9 / 16 :: rat) < w / h \<longleftrightarrow> 9 * hi < 16 * wi"
    unfolding w' h' by (rule wide_iff[OF b(3)])
  have "jdiv (Fin w) (Fin h) = Fin (rnd (w / h))"
    using inputAspect_eq[OF b] by (simp add: num_def w' h')
  then have cmp: "jgt (jdiv (Fin w) (Fin h)) (jdiv (num OUTPUT_WIDTH) (num OUTPUT_HEIGHT))
          \<longleftrightarrow> 1080 / 1920 < w / h"
    using inputAspect_gt_iff[OF b] iff by (simp add: outputAspect_eq w' h')
  show ?thesis
  proof (cases "9 * hi < 16 * wi")
    case True
    then have gt: "9 / 16 < w / h" using iff by simp
    define fh where "fh = rnd (1080 / rnd (w / h))"
    define fy where "fy = rnd (rnd (1920 - fh) / 2)"
    have r: "fgDestRect (num wi) (num hi) = Rect (Fin 0) (Fin fy) (Fin 1080) (Fin fh)"
      unfolding fy_def fh_def w' h' by (rule fgDestRect_wide[OF b True])
    have f: "0 < fh" "fh \<le> 1920" "\<bar>fh - 1080 / (w / h)\<bar> \<le> 1 / 2 ^ 41"
      using fg_wide_height[OF b True] by (simp_all add: fh_def w' h')
    have "0 \<le> rnd (rnd (1920 - fh) / 2)" using f(2) by (rule centre_nonneg)
    then have y0: "0 \<le> fy" by (simp add: fy_def)
    have "\<bar>rnd (rnd (of_int 1920 - fh) / 2) - (of_int 1920 - fh) / 2\<bar> \<le> 1 / 2 ^ 43"
      using f by (intro centre_err) simp_all
    then have ye: "\<bar>fy - (1920 - fh) / 2\<bar> \<le> 1 / 2 ^ 43" by (simp add: fy_def)
    have "rnd (rnd (of_int (2 * 960) - fh) / 2) + fh \<le> of_int (2 * 960)"
      using f by (intro centre_fits[of fh "1080 / rnd (w / h)"]) (simp_all add: fh_def)
    then have yf: "fy + fh \<le> 1920" by (simp add: fy_def)
    show ?thesis
      apply (rule exI[of _ "- 30"], rule exI[of _ "- 30"])
      apply (rule exI[of _ 1140], rule exI[of _ 1980])
      apply (rule exI[of _ 0], rule exI[of _ fy], rule exI[of _ 1080], rule exI[of _ fh])
      using cmp gt f y0 ye yf by (simp add: canvas r)
  next
    case False
    then have tall: "16 * wi \<le> 9 * hi" by simp
    from False have le: "w / h \<le> 9 / 16" using iff by simp
    define fw where "fw = rnd (1920 * rnd (w / h))"
    define fx where "fx = rnd (rnd (1080 - fw) / 2)"
    have r: "fgDestRect (num wi) (num hi) = Rect (Fin fx) (Fin 0) (Fin fw) (Fin 1920)"
      unfolding fx_def fw_def w' h' by (rule fgDestRect_tall[OF b tall])
    have f: "0 < fw" "fw \<le> 1080" "\<bar>fw - 1920 * (w / h)\<bar> \<le> 1 / 2 ^ 41"
      using fg_tall_width[OF b tall] by (simp_all add: fw_def w' h')
    have "0 \<le> rnd (rnd (1080 - fw) / 2)" using f(2) by (rule centre_nonneg)
    then have x0: "0 \<le> fx" by (simp add: fx_def)
    have "\<bar>rnd (rnd (of_int 1080 - fw) / 2) - (of_int 1080 - fw) / 2\<bar> \<le> 1 / 2 ^ 43"
      using f by (intro centre_err) simp_all
    then have xe: "\<bar>fx - (1080 - fw) / 2\<bar> \<le> 1 / 2 ^ 43" by (simp add: fx_def)
    have "rnd (rnd (of_int (2 * 540) - fw) / 2) + fw \<le> of_int (2 * 540)"
      using f by (intro centre_fits[of fw "1920 * rnd (w / h)"]) (simp_all add: fw_def)
    then have xf: "fx + fw \<le> 1080" by (simp add: fx_def)
    show ?thesis
      apply (rule exI[of _ "- 30"], rule exI[of _ "- 30"])
      apply (rule exI[of _ 1140], rule exI[of _ 1980])
      apply (rule exI[of _ fx], rule exI[of _ 0], rule exI[of _ fw], rule exI[of _ 1920])
      using cmp le f x0 xe xf by (simp add: canvas r)
  qed
qed


theorem blur_pad_fit_geometry_witness:
  "\<exists>fx fy fw fh.
     convertToStorySize_blur True \<lparr>width = 4000, height = 2000\<rparr>
       = Inr \<lparr>width_canvas = 1080, height_canvas = 1920,
              context2d = \<lparr>filter_ctx = ''none'',
                calls = [DrawImage ''blur(30px)'' \<lparr>width = 4000, height = 2000\<rparr>
                           (bgSrcRect (Fin 4000) (Fin 2000))
                           (Rect (Fin (- 30)) (Fin (- 30)) (Fin 1140) (Fin 1980)),
                         DrawImage ''none'' \<lparr>width = 4000, height = 2000\<rparr>
                           (Rect (Fin 0) (Fin 0) (Fin 4000) (Fin 2000))
                           (Rect (Fin fx) (Fin fy) (Fin fw) (Fin fh))]\<rparr>\<rparr>
     \<and> fx = 0 \<and> fw = 1080 \<and> \<bar>fh - 540\<bar> \<le> 1 / 2 ^ 41 \<and> 0 \<le> fy \<and> fy + fh \<le> 1920"
proof -
  from blur_pad_fit_geometry[of "\<lparr>width = 4000, height = 2000\<rparr>" 4000 2000]
  obtain bgx bgy bgw bgh fx fy fw fh where
    "convertToStorySize_blur True \<lparr>width = 4000, height = 2000\<rparr>
       = Inr \<lparr>width_canvas = 1080, height_canvas = 1920,
              context2d = \<lparr>filter_ctx = ''none'',
                calls = [DrawImage ''blur(30px)'' \<lparr>width = 4000, height = 2000\<rparr>
                           (bgSrcRect (Fin 4000) (Fin 2000))
                           (Rect (Fin bgx) (Fin bgy) (Fin bgw) (Fin bgh)),
                         DrawImage ''none'' \<lparr>width = 4000, height = 2000\<rparr>
                           (Rect (Fin 0) (Fin 0) (Fin 4000) (Fin 2000))
                           (Rect (Fin fx) (Fin fy) (Fin fw) (Fin fh))]\<rparr>\<rparr>"
    and "bgx = - 30 \<and> bgy = - 30 \<and> bgw = 1140 \<and> bgh = 1980"
    and "fw = 1080 \<and> \<bar>fh - 540\<bar> \<le> 1 / 2 ^ 41"
    and "0 \<le> fy \<and> fy + fh \<le> 1920"
    and "(fx = 0 \<and> fw = 1080) \<or> (fy = 0 \<and> fh = 1920)"
    by auto
  then show ?thesis by auto
qed

text \<open>
  Claim C4. The source rectangle of the background layer in the blurred-background
  variant is the source rectangle of the centre-crop variant, for all source
  dimensions. For positive dimensions all four of its entries are finite numbers.
\<close>

theorem background_crop_is_crop_fill_crop:
  "bgSrcRect sourceWidth sourceHeight = srcRect sourceWidth sourceHeight
   \<and> (0 < w \<and> w < 2 ^ 32 \<and> 0 < h \<and> h < 2 ^ 32 \<longrightarrow>
        (\<exists>sx sy sw sh. bgSrcRect (num w) (num h) = Rect (Fin sx) (Fin sy) (Fin sw) (Fin sh)))"
proof -
  have eq: "\<And>a b. bgSrcRect a b = srcRect a b" by (simp add: bgSrcRect_def srcRect_def)
  have "\<exists>sx sy sw sh. srcRect (num w) (num h) = Rect (Fin sx) (Fin sy) (Fin sw) (Fin sh)"
    if b: "0 < w" "w < 2 ^ 32" "0 < h" "h < 2 ^ 32"
  proof (cases "9 * h < 16 * w")
    case True
    from srcRect_wide[OF b True] show ?thesis by blast
  next
    case False
    then have "16 * w \<le> 9 * h" by simp
    from srcRect_tall[OF b this] show ?thesis by blast
  qed
  then show ?thesis by (simp add: eq)
qed

theorem background_crop_is_crop_fill_crop_witness:
  "\<exists>sx sy sw sh. bgSrcRect (num 4000) (num 2000) = Rect (Fin sx) (Fin sy) (Fin sw) (Fin sh)
      \<and> srcRect (num 4000) (num 2000) = Rect (Fin sx) (Fin sy) (Fin sw) (Fin sh)"
proof -
  have "(0::int) < 4000 \<and> (4000::int) < 2 ^ 32 \<and> (0::int) < 2000 \<and> (2000::int) < 2 ^ 32"
    by simp
  with background_crop_is_crop_fill_crop[of "num 4000" "num 2000" 4000 2000]
  have eq: "bgSrcRect (num 4000) (num 2000) = srcRect (num 4000) (num 2000)"
    and "\<exists>sx sy sw sh. bgSrcRect (num 4000) (num 2000) = Rect (Fin sx) (Fin sy) (Fin sw) (Fin sh)"
    by blast+
  then obtain sx sy sw sh
    where "bgSrcRect (num 4000) (num 2000) = Rect (Fin sx) (Fin sy) (Fin sw) (Fin sh)"
    by blast
  with eq show ?thesis by metis
qed

text \<open>
  Claim C8. When \<open>w / h\<close> is exactly \<open>1080 / 1920\<close>, that is \<open>16 * w = 9 * h\<close>, the
  centre-crop variant draws from the rectangle at \<open>(0, 0)\<close> of width \<open>w\<close> and height
  \<open>h\<close>: the whole source.
\<close>

theorem exact_aspect_is_not_cropped:
  assumes wpos: "0 < uint (width bitmap)"
    and exact: "16 * uint (width bitmap) = 9 * uint (height bitmap)"
  shows "convertToStorySize_crop True bitmap
         = Inr \<lparr>width_canvas = 1080, height_canvas = 1920,
                context2d = \<lparr>filter_ctx = ''none'',
                  calls = [DrawImage ''none'' bitmap
                             (Rect (Fin 0) (Fin 0) (num (uint (width bitmap)))
                                   (num (uint (height bitmap))))
                             (Rect (Fin 0) (Fin 0) (Fin 1080) (Fin 1920))]\<rparr>\<rparr>"
proof -
  define wi where "wi = uint (width bitmap)"
  define hi where "hi = uint (height bitmap)"
  have e: "16 * wi = 9 * hi" using exact by (simp add: wi_def hi_def)
  have b: "0 < wi" "wi < 2 ^ 32" "0 < hi" "hi < 2 ^ 32"
    using wpos e uint32_bound[of "width bitmap"] uint32_bound[of "height bitmap"]
    by (simp_all add: wi_def hi_def)
  have "(of_int (16 * wi) :: rat) = of_int (9 * hi)" by (simp only: e)
  then have X: "(of_int wi :: rat) / (9 / 16) = of_int hi" by simp
  have rh: "rnd (of_int hi) = of_int hi" using b by (intro rnd_exact_int) simp
  have z: "rnd (rnd ((of_int hi :: rat) - of_int hi) / 2) = 0"
    by (simp add: rnd_zero)
  have "srcRect (num wi) (num hi)
        = Rect (Fin 0) (Fin (rnd (rnd (of_int hi - rnd (of_int wi / (9 / 16))) / 2)))
               (Fin (of_int wi)) (Fin (rnd (of_int wi / (9 / 16))))"
    using e by (intro srcRect_tall[OF b]) simp
  then have "srcRect (num wi) (num hi) = Rect (Fin 0) (Fin 0) (num wi) (num hi)"
    by (simp only: z X rh num_def)
  then show ?thesis unfolding wi_def hi_def by (simp add: crop_canvas)
qed

theorem exact_aspect_is_not_cropped_witness:
  "convertToStorySize_crop True \<lparr>width = 1080, height = 1920\<rparr>
         = Inr \<lparr>width_canvas = 1080, height_canvas = 1920,
                context2d = \<lparr>filter_ctx = ''none'',
                  calls = [DrawImage ''none'' \<lparr>width = 1080, height = 1920\<rparr>
                             (Rect (Fin 0) (Fin 0) (Fin 1080) (Fin 1920))
                             (Rect (Fin 0) (Fin 0) (Fin 1080) (Fin 1920))]\<rparr>\<rparr>"
  using exact_aspect_is_not_cropped[of "\<lparr>width = 1080, height = 1920\<rparr>"]
  by (simp add: num_def)
section \<open>The dimension guard\<close>

text \<open>The rectangles of both compositors at zero and at negative dimensions.\<close>

lemma fl_zero: "fl 0 = Fin 0"
  by (simp add: fl_def rnd_zero)

lemma fl_dyadic:
  assumes m: "\<bar>m\<bar> < 2 ^ 52" and k: "- 1074 \<le> k" "k \<le> 0"
  shows "fl (of_int m * 2 powi k) = Fin (of_int m * 2 powi k)"
proof -
  have "(2::rat) powi k \<le> 2 powi 0" using k by (intro power_int_increasing) simp_all
  then have p: "(2::rat) powi k \<le> 1" "(0::rat) \<le> 2 powi k" by simp_all
  have "\<bar>m\<bar> \<le> 2 ^ 52" using m by simp
  then have "(of_int \<bar>m\<bar> :: rat) \<le> of_int (2 ^ 52)" by (simp only: of_int_le_iff)
  then have mb: "\<bar>of_int m :: rat\<bar> \<le> 2 ^ 52" by simp
  have "\<bar>of_int m * 2 powi k :: rat\<bar> = \<bar>of_int m\<bar> * 2 powi k" by (simp add: abs_mult)
  also have "\<dots> \<le> \<bar>of_int m\<bar> * 1" using p by (intro mult_left_mono) simp_all
  finally have "\<bar>of_int m * 2 powi k :: rat\<bar> \<le> 2 ^ 52" using mb by simp
  then have "fl (of_int m * 2 powi k) = Fin (rnd (of_int m * 2 powi k))" by (rule fl_fin)
  moreover have "rnd (of_int m * 2 powi k) = of_int m * 2 powi k"
    using m k by (intro rnd_exact) simp_all
  ultimately show ?thesis by simp
qed

lemma srcRect_zero: "srcRect (Fin 0) (Fin 0) = Rect (Fin 0) (Fin 0) (Fin 0) (Fin 0)"
  unfolding srcRect_def Let_def outputAspect_eq
  by (simp add: fl_zero jsub_def num_def)

lemma bgSrcRect_zero: "bgSrcRect (Fin 0) (Fin 0) = Rect (Fin 0) (Fin 0) (Fin 0) (Fin 0)"
  unfolding bgSrcRect_def Let_def outputAspect_eq
  by (simp add: fl_zero jsub_def num_def)

lemma fgDestRect_zero: "fgDestRect (Fin 0) (Fin 0) = Rect NaN (Fin 0) NaN (Fin 1920)"
  unfolding fgDestRect_def Let_def outputAspect_eq
  by (simp add: fl_zero jsub_def num_def OUTPUT_WIDTH_def OUTPUT_HEIGHT_def)

lemma zero_height:
  fixes w :: int
  assumes w: "0 < w" "w < 2 ^ 32"
  shows "srcRect (num w) (num 0) = Rect (Fin (of_int w / 2)) (Fin 0) (Fin 0) (Fin 0)"
    and "bgSrcRect (num w) (num 0) = Rect (Fin (of_int w / 2)) (Fin 0) (Fin 0) (Fin 0)"
    and "fgDestRect (num w) (num 0) = Rect (Fin 0) (Fin 960) (Fin 1080) (Fin 0)"
proof -
  have wp: "(0::rat) < of_int w" using w by simp
  have a: "jdiv (Fin (of_int w)) (Fin 0) = PosInf" using wp by simp
  have f1: "fl (of_int w) = Fin (of_int w)" using w by (intro fl_int) simp
  have "fl (of_int w * 2 powi (- 1)) = Fin (of_int w * 2 powi (- 1))"
    using w by (intro fl_dyadic) simp_all
  then have f2: "fl (of_int w / 2) = Fin (of_int w / 2)" by simp
  then have d: "jdiv (Fin (of_int w)) (Fin 2) = Fin (of_int w / 2)" by simp
  have "fl (of_int 1920) = Fin (of_int 1920)" by (rule fl_int) simp
  then have f3: "fl 1920 = Fin 1920" by simp
  have "fl (of_int 960) = Fin (of_int 960)" by (rule fl_int) simp
  then have f4: "fl 960 = Fin 960" by simp
  show "srcRect (num w) (num 0) = Rect (Fin (of_int w / 2)) (Fin 0) (Fin 0) (Fin 0)"
    unfolding srcRect_def Let_def outputAspect_eq
    by (simp add: num_def a d fl_zero f1 jsub_def del: jdiv.simps)
  show "bgSrcRect (num w) (num 0) = Rect (Fin (of_int w / 2)) (Fin 0) (Fin 0) (Fin 0)"
    unfolding bgSrcRect_def Let_def outputAspect_eq
    by (simp add: num_def a d fl_zero f1 jsub_def del: jdiv.simps)
  show "fgDestRect (num w) (num 0) = Rect (Fin 0) (Fin 960) (Fin 1080) (Fin 0)"
    unfolding fgDestRect_def Let_def outputAspect_eq
    using w by (simp add: num_def fl_zero f3 f4 jsub_def OUTPUT_WIDTH_def OUTPUT_HEIGHT_def)
qed


lemma negative_dims:
  "srcRect (num (- 4)) (num (- 2)) = Rect (Fin (- 23 / 16)) (Fin 0) (Fin (- 9 / 8)) (Fin (- 2))"
  "bgSrcRect (num (- 4)) (num (- 2)) = Rect (Fin (- 23 / 16)) (Fin 0) (Fin (- 9 / 8)) (Fin (- 2))"
  "fgDestRect (num (- 4)) (num (- 2)) = Rect (Fin 0) (Fin 690) (Fin 1080) (Fin 540)"
proof -
  have "fl (of_int 2) = Fin (of_int 2)" by (rule fl_int) simp
  then have a: "jdiv (Fin (- 4)) (Fin (- 2)) = Fin 2" by simp
  have "fl (of_int (- 9) * 2 powi (- 3)) = Fin (of_int (- 9) * 2 powi (- 3))"
    by (rule fl_dyadic) simp_all
  then have m: "jmul (Fin (- 2)) (Fin (9 / 16)) = Fin (- 9 / 8)" by simp
  have "fl (of_int (- 23) * 2 powi (- 3)) = Fin (of_int (- 23) * 2 powi (- 3))"
    by (rule fl_dyadic) simp_all
  then have s: "jsub (Fin (- 4)) (Fin (- 9 / 8)) = Fin (- 23 / 8)" by (simp add: jsub_def)
  have "fl (of_int (- 23) * 2 powi (- 4)) = Fin (of_int (- 23) * 2 powi (- 4))"
    by (rule fl_dyadic) simp_all
  then have d: "jdiv (Fin (- 23 / 8)) (Fin 2) = Fin (- 23 / 16)" by simp
  have n: "num (- 4) = Fin (- 4)" "num (- 2) = Fin (- 2)" "num 2 = Fin 2" "num 0 = Fin 0"
    "num OUTPUT_WIDTH = Fin 1080" "num OUTPUT_HEIGHT = Fin 1920"
    by (simp_all add: num_def OUTPUT_WIDTH_def OUTPUT_HEIGHT_def)
  have g: "jgt (Fin 2) (Fin (9 / 16))" by simp
  have oa: "jdiv (Fin 1080) (Fin 1920) = Fin (9 / 16)" using outputAspect_eq by (simp only: n)
  show "srcRect (num (- 4)) (num (- 2))
        = Rect (Fin (- 23 / 16)) (Fin 0) (Fin (- 9 / 8)) (Fin (- 2))"
    unfolding srcRect_def Let_def n a oa
    using g by (simp only: if_True m s d)
  show "bgSrcRect (num (- 4)) (num (- 2))
        = Rect (Fin (- 23 / 16)) (Fin 0) (Fin (- 9 / 8)) (Fin (- 2))"
    unfolding bgSrcRect_def Let_def n a oa
    using g by (simp only: if_True m s d)
  have "fl (of_int 540) = Fin (of_int 540)" by (rule fl_int) simp
  then have h: "jdiv (Fin 1080) (Fin 2) = Fin 540" by simp
  have x: "jdiv (jsub (Fin 1080) (Fin 1080)) (Fin 2) = Fin 0" by (simp add: jsub_def fl_zero)
  have "fl (of_int 1380) = Fin (of_int 1380)" by (rule fl_int) simp
  then have y1: "jsub (Fin 1920) (Fin 540) = Fin 1380" by (simp add: jsub_def)
  have "fl (of_int 690) = Fin (of_int 690)" by (rule fl_int) simp
  then have y2: "jdiv (Fin 1380) (Fin 2) = Fin 690" by simp
  show "fgDestRect (num (- 4)) (num (- 2)) = Rect (Fin 0) (Fin 690) (Fin 1080) (Fin 540)"
    unfolding fgDestRect_def Let_def n a oa
    using g by (simp only: if_True prod.case h x y1 y2)
qed


lemma compositor_reached:
  assumes "validateFile f = None"
    and "createImageBitmap pf f = Inr bitmap"
    and "validateDimensions (uint (width bitmap)) (uint (height bitmap)) = None"
  shows "ConvertToStorySize \<in> set (snd (convertImage v pf (Some f)))"
  using assms
  by (simp add: convertImage_def loadImage_def split: sum.splits)

lemma canvas_reaches_encoder:
  assumes "validateFile f = None"
    and "createImageBitmap pf f = Inr bitmap"
    and "validateDimensions (uint (width bitmap)) (uint (height bitmap)) = None"
    and "getContext pf"
  shows "convertImage CropFill pf (Some f)
     = (case toBlob pf
               \<lparr>width_canvas = 1080, height_canvas = 1920,
                context2d = \<lparr>filter_ctx = ''none'',
                  calls = [DrawImage ''none'' bitmap
                             (srcRect (num (uint (width bitmap))) (num (uint (height bitmap))))
                             (Rect (Fin 0) (Fin 0) (Fin 1080) (Fin 1920))]\<rparr>\<rparr>
               ''image/jpeg'' JPEG_QUALITY of
          None \<Rightarrow> (Failure (CONVERSION_FAILED ''Failed to create blob''),
                   [LoadImage, ConvertToStorySize, BitmapClose, CanvasToJpegBlob])
        | Some blob \<Rightarrow> (Success blob (generateFilename (newDate pf)),
                   [LoadImage, ConvertToStorySize, BitmapClose, CanvasToJpegBlob,
                    GenerateFilename]))"
    and "convertImage BlurPadFit pf (Some f)
     = (case toBlob pf
               \<lparr>width_canvas = 1080, height_canvas = 1920,
                context2d = \<lparr>filter_ctx = ''none'',
                  calls = [DrawImage ''blur(30px)'' bitmap
                             (bgSrcRect (num (uint (width bitmap))) (num (uint (height bitmap))))
                             (Rect (Fin (- 30)) (Fin (- 30)) (Fin 1140) (Fin 1980)),
                           DrawImage ''none'' bitmap
                             (Rect (Fin 0) (Fin 0) (num (uint (width bitmap)))
                                   (num (uint (height bitmap))))
                             (fgDestRect (num (uint (width bitmap)))
                                         (num (uint (height bitmap))))]\<rparr>\<rparr>
               ''image/jpeg'' JPEG_QUALITY of
          None \<Rightarrow> (Failure (CONVERSION_FAILED ''Failed to create blob''),
                   [LoadImage, ConvertToStorySize, BitmapClose, CanvasToJpegBlob])
        | Some blob \<Rightarrow> (Success blob (generateFilename (newDate pf)),
                   [LoadImage, ConvertToStorySize, BitmapClose, CanvasToJpegBlob,
                    GenerateFilename]))"
  using assms
  by (simp_all add: convertImage_def loadImage_def canvasToJpegBlob_def crop_canvas blur_canvas
      split: option.splits)


text \<open>
  Claim C10. \<^verbatim>\<open>validateDimensions\<close> returns no error exactly when both dimensions
  are at most 4096. 4096 itself passes, and so do zero and negative dimensions:
  there is no lower bound. Nothing between the guard and the compositor looks at
  the dimensions again. For a bitmap that passes the guard, \<^verbatim>\<open>convertToStorySize\<close>
  is called, and when a 2D context is available the canvas handed to the encoder
  carries the rectangles that the compositor computed from exactly those
  dimensions, the quotient \<^verbatim>\<open>sourceWidth / sourceHeight\<close> included. For height zero
  that quotient is NaN or infinite: a 0 by 0 bitmap gets the foreground rectangle
  \<open>(NaN, 0, NaN, 1920)\<close>, a bitmap of positive width and height zero an empty source
  rectangle and a foreground of height 0. The rectangle computation has no check
  of its own either: on negative dimensions, which a bitmap cannot have because
  its dimensions are unsigned, it divides all the same, as its values at
  \<open>(- 4, - 2)\<close> show.
\<close>

theorem validateDimensions_guard:
  "(validateDimensions wd ht = None \<longleftrightarrow> wd \<le> 4096 \<and> ht \<le> 4096)
   \<and> validateDimensions 4096 4096 = None
   \<and> validateDimensions 0 0 = None
   \<and> validateDimensions (- 1) (- 7) = None
   \<and> (validateFile f = None \<and> createImageBitmap pf f = Inr bitmap \<and>
       validateDimensions (uint (width bitmap)) (uint (height bitmap)) = None
       \<longrightarrow> ConvertToStorySize \<in> set (snd (convertImage v pf (Some f))))
   \<and> (validateFile f = None \<and> createImageBitmap pf f = Inr bitmap \<and>
       validateDimensions (uint (width bitmap)) (uint (height bitmap)) = None \<and>
       getContext pf
       \<longrightarrow> convertImage CropFill pf (Some f)
           = (case toBlob pf
                     \<lparr>width_canvas = 1080, height_canvas = 1920,
                      context2d = \<lparr>filter_ctx = ''none'',
                        calls = [DrawImage ''none'' bitmap
                                   (srcRect (num (uint (width bitmap)))
                                            (num (uint (height bitmap))))
                                   (Rect (Fin 0) (Fin 0) (Fin 1080) (Fin 1920))]\<rparr>\<rparr>
                     ''image/jpeg'' JPEG_QUALITY of
                None \<Rightarrow> (Failure (CONVERSION_FAILED ''Failed to create blob''),
                         [LoadImage, ConvertToStorySize, BitmapClose, CanvasToJpegBlob])
              | Some blob \<Rightarrow> (Success blob (generateFilename (newDate pf)),
                         [LoadImage, ConvertToStorySize, BitmapClose, CanvasToJpegBlob,
                          GenerateFilename]))
         \<and> convertImage BlurPadFit pf (Some f)
           = (case toBlob pf
                     \<lparr>width_canvas = 1080, height_canvas = 1920,
                      context2d = \<lparr>filter_ctx = ''none'',
                        calls = [DrawImage ''blur(30px)'' bitmap
                                   (bgSrcRect (num (uint (width bitmap)))
                                              (num (uint (height bitmap))))
                                   (Rect (Fin (- 30)) (Fin (- 30)) (Fin 1140) (Fin 1980)),
                                 DrawImage ''none'' bitmap
                                   (Rect (Fin 0) (Fin 0) (num (uint (width bitmap)))
                                         (num (uint (height bitmap))))
                                   (fgDestRect (num (uint (width bitmap)))
                                               (num (uint (height bitmap))))]\<rparr>\<rparr>
                     ''image/jpeg'' JPEG_QUALITY of
                None \<Rightarrow> (Failure (CONVERSION_FAILED ''Failed to create blob''),
                         [LoadImage, ConvertToStorySize, BitmapClose, CanvasToJpegBlob])
              | Some blob \<Rightarrow> (Success blob (generateFilename (newDate pf)),
                         [LoadImage, ConvertToStorySize, BitmapClose, CanvasToJpegBlob,
                          GenerateFilename])))
   \<and> (height bitmap = 0 \<longrightarrow>
       jdiv (num (uint (width bitmap))) (num (uint (height bitmap)))
       = (if width bitmap = 0 then NaN else PosInf))
   \<and> srcRect (num 0) (num 0) = Rect (Fin 0) (Fin 0) (Fin 0) (Fin 0)
   \<and> bgSrcRect (num 0) (num 0) = Rect (Fin 0) (Fin 0) (Fin 0) (Fin 0)
   \<and> fgDestRect (num 0) (num 0) = Rect NaN (Fin 0) NaN (Fin 1920)
   \<and> (0 < w \<and> w < 2 ^ 32 \<longrightarrow>
       srcRect (num w) (num 0) = Rect (Fin (of_int w / 2)) (Fin 0) (Fin 0) (Fin 0) \<and>
       bgSrcRect (num w) (num 0) = Rect (Fin (of_int w / 2)) (Fin 0) (Fin 0) (Fin 0) \<and>
       fgDestRect (num w) (num 0) = Rect (Fin 0) (Fin 960) (Fin 1080) (Fin 0))
   \<and> srcRect (num (- 4)) (num (- 2))
       = Rect (Fin (- 23 / 16)) (Fin 0) (Fin (- 9 / 8)) (Fin (- 2))
   \<and> bgSrcRect (num (- 4)) (num (- 2))
       = Rect (Fin (- 23 / 16)) (Fin 0) (Fin (- 9 / 8)) (Fin (- 2))
   \<and> fgDestRect (num (- 4)) (num (- 2)) = Rect (Fin 0) (Fin 690) (Fin 1080) (Fin 540)"
proof -
  have guard: "validateDimensions wd ht = None \<longleftrightarrow> wd \<le> 4096 \<and> ht \<le> 4096"
    by (auto simp add: validateDimensions_def MAX_PIXEL_DIMENSION_def)
  have edge: "validateDimensions 4096 4096 = None" "validateDimensions 0 0 = None"
    "validateDimensions (- 1) (- 7) = None"
    by (simp_all add: validateDimensions_def MAX_PIXEL_DIMENSION_def)
  have ratio: "height bitmap = 0 \<longrightarrow>
       jdiv (num (uint (width bitmap))) (num (uint (height bitmap)))
       = (if width bitmap = 0 then NaN else PosInf)"
  proof
    assume h: "height bitmap = 0"
    define n where "n = uint (width bitmap)"
    have n0: "0 \<le> n" by (simp add: n_def)
    have nz: "n = 0 \<longleftrightarrow> width bitmap = 0" by (simp add: n_def uint_0_iff)
    have "jdiv (num n) (num 0) = (if n = 0 then NaN else PosInf)"
      using n0 by (simp add: num_def)
    then show "jdiv (num (uint (width bitmap))) (num (uint (height bitmap)))
       = (if width bitmap = 0 then NaN else PosInf)"
      using h nz by (simp add: n_def)
  qed
  have n0: "num 0 = Fin 0" by (simp add: num_def)
  have zero: "srcRect (num 0) (num 0) = Rect (Fin 0) (Fin 0) (Fin 0) (Fin 0)"
    "bgSrcRect (num 0) (num 0) = Rect (Fin 0) (Fin 0) (Fin 0) (Fin 0)"
    "fgDestRect (num 0) (num 0) = Rect NaN (Fin 0) NaN (Fin 1920)"
    by (simp_all only: n0 srcRect_zero bgSrcRect_zero fgDestRect_zero)
  note reach = compositor_reached[of f pf bitmap v]
  note enc = canvas_reaches_encoder[of f pf bitmap]
  note zh = zero_height[of w]
  show ?thesis
    apply (intro conjI impI)
    apply (rule guard)
    apply (rule edge(1))
    apply (rule edge(2))
    apply (rule edge(3))
    subgoal by (rule reach) simp_all
    subgoal by (rule enc(1)) simp_all
    subgoal by (rule enc(2)) simp_all
    subgoal using ratio by simp
    apply (rule zero(1))
    apply (rule zero(2))
    apply (rule zero(3))
    subgoal by (rule zh(1)) simp_all
    subgoal by (rule zh(2)) simp_all
    subgoal by (rule zh(3)) simp_all
    apply (rule negative_dims(1))
    apply (rule negative_dims(2))
    apply (rule negative_dims(3))
    done
qed

theorem validateDimensions_guard_witness:
  "convertImage BlurPadFit
     \<lparr>createImageBitmap = (\<lambda>_. Inr \<lparr>width = 0, height = 0\<rparr>), getContext = True,
      toBlob = (\<lambda>canvas _ _. Some canvas),
      newDate = \<lparr>getFullYear = 2024, getMonth = 2, getDate = 5, getHours = 9,
                 getMinutes = 7, getSeconds = 2\<rparr>\<rparr>
     (Some \<lparr>size_file = 1000, type_file = ''image/png''\<rparr>)
   = (Success
        \<lparr>width_canvas = 1080, height_canvas = 1920,
         context2d = \<lparr>filter_ctx = ''none'',
           calls = [DrawImage ''blur(30px)'' \<lparr>width = 0, height = 0\<rparr>
                      (Rect (Fin 0) (Fin 0) (Fin 0) (Fin 0))
                      (Rect (Fin (- 30)) (Fin (- 30)) (Fin 1140) (Fin 1980)),
                    DrawImage ''none'' \<lparr>width = 0, height = 0\<rparr>
                      (Rect (Fin 0) (Fin 0) (Fin 0) (Fin 0))
                      (Rect NaN (Fin 0) NaN (Fin 1920))]\<rparr>\<rparr>
        (generateFilename \<lparr>getFullYear = 2024, getMonth = 2, getDate = 5, getHours = 9,
                            getMinutes = 7, getSeconds = 2\<rparr>),
      [LoadImage, ConvertToStorySize, BitmapClose, CanvasToJpegBlob, GenerateFilename])
   \<and> srcRect (num 5) (num 0) = Rect (Fin (5 / 2)) (Fin 0) (Fin 0) (Fin 0)
   \<and> fgDestRect (num 5) (num 0) = Rect (Fin 0) (Fin 960) (Fin 1080) (Fin 0)"
  using validateDimensions_guard[where f = "\<lparr>size_file = 1000, type_file = ''image/png''\<rparr>"
      and pf = "\<lparr>createImageBitmap = (\<lambda>_. Inr \<lparr>width = 0, height = 0\<rparr>),
        getContext = True, toBlob = (\<lambda>canvas _ _. Some canvas),
        newDate = \<lparr>getFullYear = 2024, getMonth = 2, getDate = 5, getHours = 9,
                   getMinutes = 7, getSeconds = 2\<rparr>\<rparr>"
      and bitmap = "\<lparr>width = 0, height = 0\<rparr>" and w = 5 and wd = 0 and ht = 0
      and v = BlurPadFit]
  by (simp add: validateFile_def MAX_FILE_SIZE_def ALLOWED_MIME_TYPES_def
      validateDimensions_def MAX_PIXEL_DIMENSION_def num_def)

end
